theory Spec2Isabelle
  imports Complex_Main
begin

section \<open>JavaScript numbers\<close>

text \<open>
  The library computes with JavaScript \<^verbatim>\<open>number\<close> values. A finite number is modelled
  as a real (rounding, overflow of finite results and the sign of zero are not modelled);
  the three non-finite numbers are kept as values of their own, because the code tests
  for them (\<^verbatim>\<open>isFinite\<close>) and they arise from division by zero and from non-finite
  inputs. \<open>Undefined\<close> is what reading an array beyond its length yields; every
  arithmetic operator converts it to \<open>NaN\<close>.
\<close>

datatype jsnum = Num real | PosInf | NegInf | NaN | Undefined

fun isFinite :: "jsnum \<Rightarrow> bool" where
  "isFinite (Num r) = True"
| "isFinite _ = False"

fun isNaN :: "jsnum \<Rightarrow> bool" where
  "isNaN NaN = True"
| "isNaN Undefined = True"
| "isNaN _ = False"

fun toReal :: "jsnum \<Rightarrow> real" where
  "toReal (Num r) = r"
| "toReal _ = 0"

fun jneg :: "jsnum \<Rightarrow> jsnum" where
  "jneg (Num r) = Num (- r)"
| "jneg PosInf = NegInf"
| "jneg NegInf = PosInf"
| "jneg NaN = NaN"
| "jneg Undefined = NaN"

fun jadd :: "jsnum \<Rightarrow> jsnum \<Rightarrow> jsnum" where
  "jadd (Num a) (Num b) = Num (a + b)"
| "jadd (Num a) PosInf = PosInf"
| "jadd (Num a) NegInf = NegInf"
| "jadd PosInf (Num b) = PosInf"
| "jadd PosInf PosInf = PosInf"
| "jadd NegInf (Num b) = NegInf"
| "jadd NegInf NegInf = NegInf"
| "jadd _ _ = NaN"

definition jsub :: "jsnum \<Rightarrow> jsnum \<Rightarrow> jsnum" where
  "jsub a b = jadd a (jneg b)"

text \<open>The sign of a number that is not \<open>NaN\<close>: \<open>-1\<close>, \<open>0\<close> or \<open>1\<close>.\<close>

fun jsign :: "jsnum \<Rightarrow> int" where
  "jsign (Num r) = (if r < 0 then - 1 else if r = 0 then 0 else 1)"
| "jsign PosInf = 1"
| "jsign NegInf = - 1"
| "jsign _ = 0"

definition infOfSign :: "int \<Rightarrow> jsnum" where
  "infOfSign s = (if s = 0 then NaN else if s < 0 then NegInf else PosInf)"

fun jmul :: "jsnum \<Rightarrow> jsnum \<Rightarrow> jsnum" where
  "jmul (Num a) (Num b) = Num (a * b)"
| "jmul a b = (if isNaN a \<or> isNaN b then NaN else infOfSign (jsign a * jsign b))"

text \<open>
  Division: a finite quotient of finite numbers when the divisor is not zero; a non-zero
  number over zero is infinite (the zero of the model is the positive zero); zero over
  zero and infinity over infinity are \<open>NaN\<close>; a finite number over infinity is zero.
\<close>

fun jdiv :: "jsnum \<Rightarrow> jsnum \<Rightarrow> jsnum" where
  "jdiv (Num a) (Num b) = (if b = 0 then infOfSign (jsign (Num a)) else Num (a / b))"
| "jdiv (Num a) PosInf = Num 0"
| "jdiv (Num a) NegInf = Num 0"
| "jdiv PosInf (Num b) = (if b < 0 then NegInf else PosInf)"
| "jdiv NegInf (Num b) = (if b < 0 then PosInf else NegInf)"
| "jdiv _ _ = NaN"

text \<open>The comparison \<^verbatim>\<open>a < b\<close>; false whenever an operand is \<open>NaN\<close>.\<close>

fun jlt :: "jsnum \<Rightarrow> jsnum \<Rightarrow> bool" where
  "jlt (Num a) (Num b) = (a < b)"
| "jlt (Num a) PosInf = True"
| "jlt NegInf (Num b) = True"
| "jlt NegInf PosInf = True"
| "jlt _ _ = False"

definition jgt :: "jsnum \<Rightarrow> jsnum \<Rightarrow> bool" where
  "jgt a b = jlt b a"

text \<open>\<^verbatim>\<open>Math.max\<close>, \<^verbatim>\<open>Math.min\<close> of two arguments: \<open>NaN\<close> if either is.\<close>

definition jmax :: "jsnum \<Rightarrow> jsnum \<Rightarrow> jsnum" where
  "jmax a b = (if isNaN a \<or> isNaN b then NaN else if jlt a b then b else a)"

definition jmin :: "jsnum \<Rightarrow> jsnum \<Rightarrow> jsnum" where
  "jmin a b = (if isNaN a \<or> isNaN b then NaN else if jlt b a then b else a)"


fun jexp :: "jsnum \<Rightarrow> jsnum" where
  "jexp (Num r) = Num (exp r)"
| "jexp PosInf = PosInf"
| "jexp NegInf = Num 0"
| "jexp _ = NaN"

fun jtanh :: "jsnum \<Rightarrow> jsnum" where
  "jtanh (Num r) = Num (tanh r)"
| "jtanh PosInf = Num 1"
| "jtanh NegInf = Num (- 1)"
| "jtanh _ = NaN"

fun jsqrt :: "jsnum \<Rightarrow> jsnum" where
  "jsqrt (Num r) = (if r < 0 then NaN else Num (sqrt r))"
| "jsqrt PosInf = PosInf"
| "jsqrt _ = NaN"

fun jlog :: "jsnum \<Rightarrow> jsnum" where
  "jlog (Num r) = (if r < 0 then NaN else if r = 0 then NegInf else Num (ln r))"
| "jlog PosInf = PosInf"
| "jlog _ = NaN"

text \<open>\<^verbatim>\<open>Math.pow(base, t)\<close> for a step counter \<open>t\<close>, a natural number.\<close>

fun jpow :: "jsnum \<Rightarrow> nat \<Rightarrow> jsnum" where
  "jpow a 0 = Num 1"
| "jpow a (Suc n) = jmul a (jpow a n)"

section \<open>Exceptions and array reads\<close>

text \<open>
  A thrown exception is a value: \<open>TypeError\<close> is what reading a property of
  \<^verbatim>\<open>undefined\<close> raises, \<open>Error msg\<close> is an explicit \<^verbatim>\<open>throw new Error(msg)\<close>.
  \<open>UndefinedParameters\<close> marks the one place where the source would store
  \<^verbatim>\<open>undefined\<close> as the weights of a layer (see \<open>restoreState\<close>).
\<close>

datatype error = TypeError | Error string | UndefinedParameters

definition bindE :: "error + 'a \<Rightarrow> ('a \<Rightarrow> error + 'b) \<Rightarrow> error + 'b" where
  "bindE r f = (case r of Inl e \<Rightarrow> Inl e | Inr v \<Rightarrow> f v)"

text \<open>Building an array element by element, stopping at the first exception.\<close>

fun mapE :: "('a \<Rightarrow> error + 'b) \<Rightarrow> 'a list \<Rightarrow> error + 'b list" where
  "mapE f [] = Inr []"
| "mapE f (x # xs) = bindE (f x) (\<lambda>y. bindE (mapE f xs) (\<lambda>ys. Inr (y # ys)))"

text \<open>\<^verbatim>\<open>xs.map((val, i) => f(i, val))\<close> where the callback may throw.\<close>

definition imapE :: "(nat \<Rightarrow> 'a \<Rightarrow> error + 'b) \<Rightarrow> 'a list \<Rightarrow> error + 'b list" where
  "imapE f xs = mapE (\<lambda>(i, v). f i v) (enumerate 0 xs)"

definition imap :: "(nat \<Rightarrow> 'a \<Rightarrow> 'b) \<Rightarrow> 'a list \<Rightarrow> 'b list" where
  "imap f xs = map (\<lambda>(i, v). f i v) (enumerate 0 xs)"

text \<open>A loop \<^verbatim>\<open>for (k = 0; k < n; k++) acc = body(acc, k)\<close> whose body may throw.\<close>

definition forE :: "nat \<Rightarrow> 'a \<Rightarrow> ('a \<Rightarrow> nat \<Rightarrow> error + 'a) \<Rightarrow> error + 'a" where
  "forE n init body = foldl (\<lambda>acc k. bindE acc (\<lambda>s. body s k)) (Inr init) [0..<n]"

text \<open>
  \<open>arrayAt xs i\<close> is \<^verbatim>\<open>xs[i]\<close> for an array of objects (\<open>None\<close> is \<^verbatim>\<open>undefined\<close>),
  \<open>numAt r j\<close> is \<^verbatim>\<open>r[j]\<close> for an array of numbers, and \<open>at2 d i j\<close> is
  \<^verbatim>\<open>d[i][j]\<close>, which raises when \<^verbatim>\<open>d[i]\<close> is \<^verbatim>\<open>undefined\<close>.
\<close>

definition arrayAt :: "'a list \<Rightarrow> nat \<Rightarrow> 'a option" where
  "arrayAt xs i = (if i < length xs then Some (xs ! i) else None)"

definition numAt :: "jsnum list \<Rightarrow> nat \<Rightarrow> jsnum" where
  "numAt r j = (if j < length r then r ! j else Undefined)"

definition at2 :: "jsnum list list \<Rightarrow> nat \<Rightarrow> nat \<Rightarrow> error + jsnum" where
  "at2 d i j = (case arrayAt d i of None \<Rightarrow> Inl TypeError | Some r \<Rightarrow> Inr (numAt r j))"

section \<open>Tensor algebra (types.ts, neural-network.ts, optimizers.ts)\<close>

text \<open>
  \<^verbatim>\<open>interface Tensor { data: number[][]; rows: number; cols: number }\<close>. The two
  counts are natural numbers, as every tensor the library builds has them.
\<close>

record Tensor =
  data :: "jsnum list list"
  rows :: nat
  cols :: nat

definition matmulEntry :: "Tensor \<Rightarrow> Tensor \<Rightarrow> nat \<Rightarrow> nat \<Rightarrow> error + jsnum" where
  "matmulEntry a b i j =
     forE (cols a) (Num 0)
       (\<lambda>s k. bindE (at2 (data a) i k) (\<lambda>x. bindE (at2 (data b) k j) (\<lambda>y.
                   Inr (jadd s (jmul x y)))))"

definition matmul :: "Tensor \<Rightarrow> Tensor \<Rightarrow> error + Tensor" where
  "matmul a b =
     bindE (mapE (\<lambda>i. mapE (\<lambda>j. matmulEntry a b i j) [0..<cols b]) [0..<rows a])
       (\<lambda>d. Inr \<lparr>data = d, rows = rows a, cols = cols b\<rparr>)"

definition transpose_t :: "Tensor \<Rightarrow> error + Tensor" where
  "transpose_t t =
     bindE (mapE (\<lambda>j. mapE (\<lambda>i. at2 (data t) i j) [0..<rows t]) [0..<cols t])
       (\<lambda>d. Inr \<lparr>data = d, rows = cols t, cols = rows t\<rparr>)"

text \<open>
  \<open>add\<close>, \<open>subtract\<close>, \<open>elementwiseMultiply\<close> and \<open>elementwiseDivide\<close> share one shape:
  \<^verbatim>\<open>a.data.map((row, i) => row.map((val, j) => f(val, b.data[i][j])))\<close>.
\<close>

definition zipTensor :: "(jsnum \<Rightarrow> jsnum \<Rightarrow> jsnum) \<Rightarrow> Tensor \<Rightarrow> Tensor \<Rightarrow> error + Tensor" where
  "zipTensor f a b =
     bindE (imapE (\<lambda>i row. imapE (\<lambda>j val. bindE (at2 (data b) i j) (\<lambda>y. Inr (f val y))) row)
                  (data a))
       (\<lambda>d. Inr \<lparr>data = d, rows = rows a, cols = cols a\<rparr>)"

definition add_t :: "Tensor \<Rightarrow> Tensor \<Rightarrow> error + Tensor" where
  "add_t a b = zipTensor jadd a b"

definition subtract :: "Tensor \<Rightarrow> Tensor \<Rightarrow> error + Tensor" where
  "subtract a b = zipTensor jsub a b"

definition elementwiseMultiply :: "Tensor \<Rightarrow> Tensor \<Rightarrow> error + Tensor" where
  "elementwiseMultiply a b = zipTensor jmul a b"

definition elementwiseDivide :: "Tensor \<Rightarrow> Tensor \<Rightarrow> jsnum \<Rightarrow> error + Tensor" where
  "elementwiseDivide a b epsilon = zipTensor (\<lambda>val y. jdiv val (jadd y epsilon)) a b"

definition mapTensor :: "(jsnum \<Rightarrow> jsnum) \<Rightarrow> Tensor \<Rightarrow> Tensor" where
  "mapTensor f t = \<lparr>data = map (map f) (data t), rows = rows t, cols = cols t\<rparr>"

definition multiplyScalar :: "Tensor \<Rightarrow> jsnum \<Rightarrow> Tensor" where
  "multiplyScalar t scalar = mapTensor (\<lambda>val. jmul val scalar) t"

definition sqrt_t :: "Tensor \<Rightarrow> Tensor" where
  "sqrt_t t = mapTensor jsqrt t"

definition broadcastAdd :: "Tensor \<Rightarrow> jsnum list \<Rightarrow> Tensor" where
  "broadcastAdd t vec =
     \<lparr>data = map (imap (\<lambda>j val. jadd val (numAt vec j))) (data t), rows = rows t, cols = cols t\<rparr>"

definition colSum :: "Tensor \<Rightarrow> error + jsnum list" where
  "colSum t =
     forE (rows t) (replicate (cols t) (Num 0))
       (\<lambda>acc i. forE (cols t) acc
          (\<lambda>acc' j. bindE (at2 (data t) i j) (\<lambda>v. Inr (acc'[j := jadd (acc' ! j) v]))))"

definition clipNum :: "jsnum \<Rightarrow> jsnum \<Rightarrow> jsnum" where
  "clipNum clipValue val = jmax (jneg clipValue) (jmin clipValue val)"


section \<open>Activation functions (activations.ts)\<close>

datatype Activation = ReLU | Sigmoid | Tanh | Linear | Softmax

definition sigmoidNum :: "jsnum \<Rightarrow> jsnum" where
  "sigmoidNum val =
     (let clamped = jmax (Num (- 500)) (jmin (Num 500) val)
      in jdiv (Num 1) (jadd (Num 1) (jexp (jneg clamped))))"

text \<open>\<^verbatim>\<open>Math.max(...row)\<close>: minus infinity for an empty row, \<open>NaN\<close> if an entry is.\<close>

definition maxOfRow :: "jsnum list \<Rightarrow> jsnum" where
  "maxOfRow row = foldl jmax NegInf row"

definition softmaxRow :: "jsnum list \<Rightarrow> jsnum list" where
  "softmaxRow row =
     (let maxVal = maxOfRow row;
          expVals = map (\<lambda>val. jexp (jsub val maxVal)) row;
          sum = foldl jadd (Num 0) expVals
      in map (\<lambda>val. jdiv val sum) expVals)"

fun activation_forward :: "Activation \<Rightarrow> Tensor \<Rightarrow> Tensor" where
  "activation_forward ReLU input = mapTensor (\<lambda>val. jmax (Num 0) val) input"
| "activation_forward Sigmoid input = mapTensor sigmoidNum input"
| "activation_forward Tanh input = mapTensor jtanh input"
| "activation_forward Linear input = input"
| "activation_forward Softmax input =
     \<lparr>data = map softmaxRow (data input), rows = rows input, cols = cols input\<rparr>"

text \<open>
  The backward passes map over \<open>outputGrad\<close> and read the second tensor at the same
  indices: \<^verbatim>\<open>outputGrad.data.map((row, i) => row.map((val, j) => f(val, t.data[i][j])))\<close>.
\<close>

fun activation_backward :: "Activation \<Rightarrow> Tensor \<Rightarrow> Tensor \<Rightarrow> error + Tensor" where
  "activation_backward ReLU outputGrad input =
     bindE (imapE (\<lambda>i row. imapE (\<lambda>j val. bindE (at2 (data input) i j)
               (\<lambda>z. Inr (if jgt z (Num 0) then val else Num 0))) row) (data outputGrad))
       (\<lambda>d. Inr \<lparr>data = d, rows = rows outputGrad, cols = cols outputGrad\<rparr>)"
| "activation_backward Sigmoid outputGrad input =
     zipTensor (\<lambda>val sig. jmul (jmul val sig) (jsub (Num 1) sig))
       outputGrad (activation_forward Sigmoid input)"
| "activation_backward Tanh outputGrad input =
     zipTensor (\<lambda>val tanhVal. jmul val (jsub (Num 1) (jmul tanhVal tanhVal)))
       outputGrad (activation_forward Tanh input)"
| "activation_backward Linear outputGrad input = Inr outputGrad"
| "activation_backward Softmax outputGrad input =
     zipTensor (\<lambda>val soft. jmul (jmul val soft) (jsub (Num 1) soft))
       outputGrad (activation_forward Softmax input)"

section \<open>Loss functions (losses.ts)\<close>

datatype Loss = MSE | CrossEntropy

text \<open>The accumulator of \<open>compute\<close>: the running \<open>sum\<close> and the integer \<open>count\<close>.\<close>

definition mse_compute :: "Tensor \<Rightarrow> Tensor \<Rightarrow> error + jsnum" where
  "mse_compute predictions targets =
     bindE (forE (rows predictions) (Num 0, 0::nat)
              (\<lambda>acc i. forE (cols predictions) acc
                 (\<lambda>(sum, count) j.
                    bindE (at2 (data predictions) i j) (\<lambda>pred.
                    bindE (at2 (data targets) i j) (\<lambda>target.
                      if isFinite pred \<and> isFinite target
                      then (let diff = jsub pred target
                            in Inr (jadd sum (jmul diff diff), count + 1))
                      else Inr (sum, count))))))
       (\<lambda>(sum, count). Inr (if count > 0 then jdiv sum (Num (real count)) else Num 0))"

definition mse_gradient :: "Tensor \<Rightarrow> Tensor \<Rightarrow> error + Tensor" where
  "mse_gradient predictions targets =
     (let count = Num (real (rows predictions * cols predictions))
      in bindE (imapE (\<lambda>i row. imapE (\<lambda>j val. bindE (at2 (data targets) i j) (\<lambda>target.
                   let grad = jdiv (jmul (Num 2) (jsub val target)) count
                   in Inr (if isFinite grad then grad else Num 0))) row) (data predictions))
           (\<lambda>d. Inr \<lparr>data = d, rows = rows predictions, cols = cols predictions\<rparr>))"

definition ce_epsilon :: jsnum where
  "ce_epsilon = Num (1 / 10 ^ 15)"

definition ce_compute :: "Tensor \<Rightarrow> Tensor \<Rightarrow> error + jsnum" where
  "ce_compute predictions targets =
     bindE (forE (rows predictions) (Num 0, 0::nat)
              (\<lambda>acc i. forE (cols predictions) acc
                 (\<lambda>(sum, count) j.
                    bindE (at2 (data predictions) i j) (\<lambda>rawPred.
                      if \<not> isFinite rawPred then Inr (sum, count)
                      else
                        let pred = jmax ce_epsilon (jmin (jsub (Num 1) ce_epsilon) rawPred)
                        in bindE (at2 (data targets) i j) (\<lambda>target.
                             let loss = jadd (jmul target (jlog pred))
                                             (jmul (jsub (Num 1) target) (jlog (jsub (Num 1) pred)))
                             in if isFinite loss then Inr (jadd sum loss, count + 1)
                                else Inr (sum, count))))))
       (\<lambda>(sum, count). Inr (if count > 0 then jdiv (jneg sum) (Num (real count)) else Num 0))"

definition ce_gradient :: "Tensor \<Rightarrow> Tensor \<Rightarrow> error + Tensor" where
  "ce_gradient predictions targets =
     (let count = Num (real (rows predictions * cols predictions))
      in bindE (imapE (\<lambda>i row. imapE (\<lambda>j val.
                   let pred = jmax ce_epsilon (jmin (jsub (Num 1) ce_epsilon) val)
                   in bindE (at2 (data targets) i j) (\<lambda>target.
                        let grad = jdiv (jneg (jsub (jdiv target pred)
                                                 (jdiv (jsub (Num 1) target) (jsub (Num 1) pred))))
                                        count
                        in Inr (if isFinite grad then jmax (Num (- 10)) (jmin (Num 10) grad)
                                else Num 0))) row) (data predictions))
           (\<lambda>d. Inr \<lparr>data = d, rows = rows predictions, cols = cols predictions\<rparr>))"

fun loss_compute :: "Loss \<Rightarrow> Tensor \<Rightarrow> Tensor \<Rightarrow> error + jsnum" where
  "loss_compute MSE p t = mse_compute p t"
| "loss_compute CrossEntropy p t = ce_compute p t"

fun loss_gradient :: "Loss \<Rightarrow> Tensor \<Rightarrow> Tensor \<Rightarrow> error + Tensor" where
  "loss_gradient MSE p t = mse_gradient p t"
| "loss_gradient CrossEntropy p t = ce_gradient p t"

section \<open>Optimizers (optimizers.ts)\<close>

text \<open>
  The moment estimates of Adam and RMSprop live in maps keyed by the string
  \<^verbatim>\<open>`${rows}x${cols}`\<close> for tensors and \<^verbatim>\<open>`${bias.length}`\<close> for bias vectors. The pair
  \<open>(rows, cols)\<close> and the length stand for these strings, which they determine and are
  determined by. The fields \<^verbatim>\<open>m\<close>, \<^verbatim>\<open>v\<close>, \<^verbatim>\<open>t\<close> of the class Adam are named
  \<open>adam_m\<close>, \<open>adam_v\<close>, \<open>adam_t\<close>.
\<close>

definition zerosLike :: "Tensor \<Rightarrow> Tensor" where
  "zerosLike gradients = mapTensor (\<lambda>_. Num 0) gradients"

definition sgd_update :: "Tensor \<Rightarrow> Tensor \<Rightarrow> jsnum \<Rightarrow> error + Tensor" where
  "sgd_update w gradients learningRate = subtract w (multiplyScalar gradients learningRate)"

definition sgd_updateBias :: "jsnum list \<Rightarrow> jsnum list \<Rightarrow> jsnum \<Rightarrow> jsnum list" where
  "sgd_updateBias bs gradients learningRate =
     imap (\<lambda>i b. jsub b (jmul learningRate (numAt gradients i))) bs"

record Adam =
  adam_m :: "nat \<times> nat \<Rightarrow> Tensor option"
  adam_v :: "nat \<times> nat \<Rightarrow> Tensor option"
  adam_t :: nat
  biasM :: "nat \<Rightarrow> jsnum list option"
  biasV :: "nat \<Rightarrow> jsnum list option"

definition beta1 :: jsnum where "beta1 = Num (9 / 10)"
definition beta2 :: jsnum where "beta2 = Num (999 / 1000)"
definition epsilon :: jsnum where "epsilon = Num (1 / 10 ^ 8)"

definition getKey :: "Tensor \<Rightarrow> nat \<times> nat" where
  "getKey w = (rows w, cols w)"

definition getBiasKey :: "jsnum list \<Rightarrow> nat" where
  "getBiasKey bs = length bs"

definition adam_reset :: "Adam \<Rightarrow> Adam" where
  "adam_reset a = \<lparr>adam_m = Map.empty, adam_v = Map.empty, adam_t = 0,
                   biasM = Map.empty, biasV = Map.empty\<rparr>"

text \<open>
  \<open>adam_update\<close> returns the optimizer as the call leaves it, also when the call throws:
  the counter is incremented first, and each moment is stored as soon as it is computed.
  \<^verbatim>\<open>this.v.get(key)!\<close> is \<^verbatim>\<open>undefined\<close> when the key is missing, and the first read of
  a property of it raises.
\<close>

definition adam_update :: "Adam \<Rightarrow> Tensor \<Rightarrow> Tensor \<Rightarrow> jsnum \<Rightarrow> Adam \<times> (error + Tensor)" where
  "adam_update a w gradients learningRate =
     (let key = getKey w;
          a0 = a\<lparr>adam_t := adam_t a + 1\<rparr>;
          a1 = (if adam_m a0 key = None
                then a0\<lparr>adam_m := (adam_m a0)(key \<mapsto> zerosLike gradients),
                        adam_v := (adam_v a0)(key \<mapsto> zerosLike gradients)\<rparr>
                else a0)
      in case (case adam_m a1 key of None \<Rightarrow> Inl TypeError
               | Some m \<Rightarrow> add_t (multiplyScalar m beta1)
                                 (multiplyScalar gradients (jsub (Num 1) beta1))) of
           Inl e \<Rightarrow> (a1, Inl e)
         | Inr mNew \<Rightarrow>
             let a2 = a1\<lparr>adam_m := (adam_m a1)(key \<mapsto> mNew)\<rparr>
             in case bindE (elementwiseMultiply gradients gradients) (\<lambda>gradientsSquared.
                       case adam_v a2 key of None \<Rightarrow> Inl TypeError
                       | Some v \<Rightarrow> add_t (multiplyScalar v beta2)
                                         (multiplyScalar gradientsSquared (jsub (Num 1) beta2))) of
                  Inl e \<Rightarrow> (a2, Inl e)
                | Inr vNew \<Rightarrow>
                    let a3 = a2\<lparr>adam_v := (adam_v a2)(key \<mapsto> vNew)\<rparr>;
                        mHat = multiplyScalar mNew
                                 (jdiv (Num 1) (jsub (Num 1) (jpow beta1 (adam_t a3))));
                        vHat = multiplyScalar vNew
                                 (jdiv (Num 1) (jsub (Num 1) (jpow beta2 (adam_t a3))));
                        vHatSqrt = sqrt_t vHat
                    in (a3, bindE (elementwiseDivide (multiplyScalar mHat learningRate)
                                     vHatSqrt epsilon)
                              (\<lambda>update. subtract w update)))"

definition adam_updateBias ::
    "Adam \<Rightarrow> jsnum list \<Rightarrow> jsnum list \<Rightarrow> jsnum \<Rightarrow> Adam \<times> (error + jsnum list)" where
  "adam_updateBias a bs gradients learningRate =
     (let key = getBiasKey bs;
          a0 = a\<lparr>adam_t := adam_t a + 1\<rparr>;
          a1 = (if biasM a0 key = None
                then a0\<lparr>biasM := (biasM a0)(key \<mapsto> replicate (length bs) (Num 0)),
                        biasV := (biasV a0)(key \<mapsto> replicate (length bs) (Num 0))\<rparr>
                else a0)
      in case biasM a1 key of
           None \<Rightarrow> (a1, Inl TypeError)
         | Some m \<Rightarrow>
             let mNew = imap (\<lambda>i mi. jadd (jmul beta1 mi)
                                          (jmul (jsub (Num 1) beta1) (numAt gradients i))) m;
                 a2 = a1\<lparr>biasM := (biasM a1)(key \<mapsto> mNew)\<rparr>
             in case biasV a2 key of
                  None \<Rightarrow> (a2, Inl TypeError)
                | Some v \<Rightarrow>
                    let vNew = imap (\<lambda>i vi. jadd (jmul beta2 vi)
                                         (jmul (jmul (jsub (Num 1) beta2) (numAt gradients i))
                                               (numAt gradients i))) v;
                        a3 = a2\<lparr>biasV := (biasV a2)(key \<mapsto> vNew)\<rparr>;
                        mHat = map (\<lambda>mi. jdiv mi (jsub (Num 1) (jpow beta1 (adam_t a3)))) mNew;
                        vHat = map (\<lambda>vi. jdiv vi (jsub (Num 1) (jpow beta2 (adam_t a3)))) vNew
                    in (a3, Inr (imap (\<lambda>i b.
                                   let vHatSqrt = jsqrt (numAt vHat i)
                                   in jsub b (jdiv (jmul learningRate (numAt mHat i))
                                                   (jadd vHatSqrt epsilon))) bs)))"

record RMSprop =
  rms_v :: "nat \<times> nat \<Rightarrow> Tensor option"
  rms_biasV :: "nat \<Rightarrow> jsnum list option"

definition rms_beta :: jsnum where "rms_beta = Num (9 / 10)"

definition rms_reset :: "RMSprop \<Rightarrow> RMSprop" where
  "rms_reset r = \<lparr>rms_v = Map.empty, rms_biasV = Map.empty\<rparr>"

definition rms_update ::
    "RMSprop \<Rightarrow> Tensor \<Rightarrow> Tensor \<Rightarrow> jsnum \<Rightarrow> RMSprop \<times> (error + Tensor)" where
  "rms_update r w gradients learningRate =
     (let key = getKey w;
          r1 = (if rms_v r key = None
                then r\<lparr>rms_v := (rms_v r)(key \<mapsto> zerosLike gradients)\<rparr> else r)
      in case bindE (elementwiseMultiply gradients gradients) (\<lambda>gradientsSquared.
                case rms_v r1 key of None \<Rightarrow> Inl TypeError
                | Some v \<Rightarrow> add_t (multiplyScalar v rms_beta)
                                  (multiplyScalar gradientsSquared (jsub (Num 1) rms_beta))) of
           Inl e \<Rightarrow> (r1, Inl e)
         | Inr vNew \<Rightarrow>
             let r2 = r1\<lparr>rms_v := (rms_v r1)(key \<mapsto> vNew)\<rparr>;
                 vSqrt = sqrt_t vNew
             in (r2, bindE (elementwiseDivide (multiplyScalar gradients learningRate)
                              vSqrt epsilon)
                       (\<lambda>update. subtract w update)))"

definition rms_updateBias ::
    "RMSprop \<Rightarrow> jsnum list \<Rightarrow> jsnum list \<Rightarrow> jsnum \<Rightarrow> RMSprop \<times> (error + jsnum list)" where
  "rms_updateBias r bs gradients learningRate =
     (let key = getBiasKey bs;
          r1 = (if rms_biasV r key = None
                then r\<lparr>rms_biasV := (rms_biasV r)(key \<mapsto> replicate (length bs) (Num 0))\<rparr>
                else r)
      in case rms_biasV r1 key of
           None \<Rightarrow> (r1, Inl TypeError)
         | Some v \<Rightarrow>
             let vNew = imap (\<lambda>i vi. jadd (jmul rms_beta vi)
                                  (jmul (jmul (jsub (Num 1) rms_beta) (numAt gradients i))
                                        (numAt gradients i))) v;
                 r2 = r1\<lparr>rms_biasV := (rms_biasV r1)(key \<mapsto> vNew)\<rparr>
             in (r2, Inr (imap (\<lambda>i b.
                            let vSqrt = jsqrt (numAt vNew i)
                            in jsub b (jdiv (jmul learningRate (numAt gradients i))
                                            (jadd vSqrt epsilon))) bs)))"

text \<open>The interface \<^verbatim>\<open>Optimizer\<close> with its three implementations.\<close>

datatype OptimizerType = sgd | adam | rmsprop

datatype Optimizer = SGD | AdamOpt Adam | RMSpropOpt RMSprop

fun getOptimizer :: "OptimizerType \<Rightarrow> Optimizer" where
  "getOptimizer sgd = SGD"
| "getOptimizer adam = AdamOpt \<lparr>adam_m = Map.empty, adam_v = Map.empty, adam_t = 0,
                                 biasM = Map.empty, biasV = Map.empty\<rparr>"
| "getOptimizer rmsprop = RMSpropOpt \<lparr>rms_v = Map.empty, rms_biasV = Map.empty\<rparr>"

fun optimizer_reset :: "Optimizer \<Rightarrow> Optimizer" where
  "optimizer_reset SGD = SGD"
| "optimizer_reset (AdamOpt a) = AdamOpt (adam_reset a)"
| "optimizer_reset (RMSpropOpt r) = RMSpropOpt (rms_reset r)"

fun optimizer_update ::
    "Optimizer \<Rightarrow> Tensor \<Rightarrow> Tensor \<Rightarrow> jsnum \<Rightarrow> Optimizer \<times> (error + Tensor)" where
  "optimizer_update SGD w g lr = (SGD, sgd_update w g lr)"
| "optimizer_update (AdamOpt a) w g lr = (let (a', r) = adam_update a w g lr in (AdamOpt a', r))"
| "optimizer_update (RMSpropOpt s) w g lr =
     (let (s', r) = rms_update s w g lr in (RMSpropOpt s', r))"

fun optimizer_updateBias ::
    "Optimizer \<Rightarrow> jsnum list \<Rightarrow> jsnum list \<Rightarrow> jsnum \<Rightarrow> Optimizer \<times> (error + jsnum list)" where
  "optimizer_updateBias SGD bs g lr = (SGD, Inr (sgd_updateBias bs g lr))"
| "optimizer_updateBias (AdamOpt a) bs g lr =
     (let (a', r) = adam_updateBias a bs g lr in (AdamOpt a', r))"
| "optimizer_updateBias (RMSpropOpt s) bs g lr =
     (let (s', r) = rms_updateBias s bs g lr in (RMSpropOpt s', r))"

section \<open>Layer (neural-network.ts)\<close>

text \<open>
  The fields of the class. The four transient fields are optional in the source; \<open>None\<close>
  is \<^verbatim>\<open>undefined\<close>. The constructor draws the initial weights from \<^verbatim>\<open>Math.random\<close>;
  a layer is therefore a parameter of everything below.
\<close>

record Layer =
  weights :: Tensor
  bias :: "jsnum list"
  activation :: Activation
  inputSize :: nat
  outputSize :: nat
  lastInput :: "Tensor option"
  preActivationOutput :: "Tensor option"
  weightGrad :: "Tensor option"
  biasGrad :: "jsnum list option"

text \<open>
  A method that assigns fields and may then throw returns the object as the exception
  leaves it, next to the result. The debug engine can pass \<^verbatim>\<open>undefined\<close> as input (a
  missing cached activation), hence the optional argument; \<open>matmul\<close> then raises on
  reading \<^verbatim>\<open>a.rows\<close>.
\<close>

definition layer_forward :: "Layer \<Rightarrow> Tensor option \<Rightarrow> Layer \<times> (error + Tensor)" where
  "layer_forward l input =
     (let l1 = l\<lparr>lastInput := input\<rparr> in
      case transpose_t (weights l1) of
        Inl e \<Rightarrow> (l1, Inl e)
      | Inr weightsT \<Rightarrow>
          (case (case input of None \<Rightarrow> Inl TypeError | Some inp \<Rightarrow> matmul inp weightsT) of
             Inl e \<Rightarrow> (l1, Inl e)
           | Inr output0 \<Rightarrow>
               let output = broadcastAdd output0 (bias l1);
                   l2 = l1\<lparr>preActivationOutput := Some output\<rparr>
               in (l2, Inr (activation_forward (activation l2) output))))"

definition layer_backward :: "Layer \<Rightarrow> Tensor \<Rightarrow> Layer \<times> (error + Tensor)" where
  "layer_backward l outputGrad =
     (case (lastInput l, preActivationOutput l) of
        (Some lastIn, Some preAct) \<Rightarrow>
          (case bindE (activation_backward (activation l) outputGrad preAct) (\<lambda>activationGrad.
                bindE (transpose_t activationGrad) (\<lambda>activationGradT.
                bindE (matmul activationGradT lastIn) (\<lambda>wGrad.
                bindE (colSum activationGrad) (\<lambda>bGrad. Inr (activationGrad, wGrad, bGrad))))) of
             Inl e \<Rightarrow> (l, Inl e)
           | Inr (activationGrad, wGrad, bGrad) \<Rightarrow>
               (l\<lparr>weightGrad := Some wGrad, biasGrad := Some bGrad\<rparr>,
                matmul activationGrad (weights l)))
      | _ \<Rightarrow> (l, Inl (Error ''Forward pass must be called before backward'')))"

text \<open>
  \<open>updateWeights\<close> assigns nothing before \<open>subtract\<close> returns, so an exception leaves the
  layer as it was: the result is the exception or the updated layer.
\<close>

definition clipValue :: jsnum where
  "clipValue = Num 5"


section \<open>Network (neural-network.ts)\<close>

record Network =
  layers :: "Layer list"
  lossFunction :: Loss

text \<open>
  Modelled from the spec: \<^verbatim>\<open>Network.forwardLayer\<close> is called by the debug engine and
  is not in neural-network.ts as given. The specification has \<open>stepForwardLayer(i)\<close> run
  layer \<open>i\<close>'s forward on the given input. Calling a method of a layer that does not
  exist raises.
\<close>

definition forwardLayer :: "Network \<Rightarrow> nat \<Rightarrow> Tensor option \<Rightarrow> Network \<times> (error + Tensor)" where
  "forwardLayer net i input =
     (case arrayAt (layers net) i of
        None \<Rightarrow> (net, Inl TypeError)
      | Some l \<Rightarrow> (let (l', r) = layer_forward l input
                   in (net\<lparr>layers := (layers net)[i := l']\<rparr>, r)))"

text \<open>
  Modelled from the spec: \<^verbatim>\<open>Network.getState\<close> is called by the debug engine and is
  not in neural-network.ts as given. The specification has a snapshot hold a copy of all
  layer weights and biases, and \<^verbatim>\<open>NetworkState\<close> in types.ts names the two lists.
\<close>

definition getState :: "Network \<Rightarrow> Tensor list \<times> jsnum list list" where
  "getState net = (map weights (layers net), map bias (layers net))"

text \<open>
  Modelled from the spec: \<^verbatim>\<open>Network.getGradients\<close> is called by the debug engine and
  is not in neural-network.ts as given. \<^verbatim>\<open>NetworkState\<close> in types.ts gives the gradients
  as the lists of the weight and the bias gradients of the layers; the engine turns a
  missing result into \<^verbatim>\<open>undefined\<close>. No operation of the engine reads them back.
\<close>

definition getGradients :: "Network \<Rightarrow> (Tensor list \<times> jsnum list list) option" where
  "getGradients net =
     (if list_all (\<lambda>l. weightGrad l \<noteq> None \<and> biasGrad l \<noteq> None) (layers net)
      then Some (map (\<lambda>l. the (weightGrad l)) (layers net), map (\<lambda>l. the (biasGrad l)) (layers net))
      else None)"

section \<open>Linear regression: the normal equation (linear-regression.ts)\<close>









section \<open>Notions of the specification\<close>

text \<open>
  A tensor is well formed when \<open>rows\<close> is the number of rows of \<open>data\<close> and every row
  has \<open>cols\<close> entries. \<open>allFinite\<close> says that every entry is a finite number, and
  \<open>identity n\<close> is the identity matrix of size \<open>n\<close>.
\<close>

definition wellFormed :: "Tensor \<Rightarrow> bool" where
  "wellFormed t = (length (data t) = rows t \<and> (\<forall>r \<in> set (data t). length r = cols t))"

definition allFinite :: "Tensor \<Rightarrow> bool" where
  "allFinite t = (\<forall>r \<in> set (data t). \<forall>v \<in> set r. isFinite v)"

definition identity :: "nat \<Rightarrow> Tensor" where
  "identity n =
     \<lparr>data = map (\<lambda>i. map (\<lambda>j. if i = j then Num 1 else Num 0) [0..<n]) [0..<n],
      rows = n, cols = n\<rparr>"

text \<open>
  \<open>entry t i j\<close> is the real value of the entry at row \<open>i\<close>, column \<open>j\<close>;
  \<open>setEntry t i j v\<close> is \<open>t\<close> with that entry replaced by \<open>v\<close>. \<open>sqd p t i j\<close> is the
  squared difference of two tensors at one position and \<open>gradEntry p t i j\<close> the value
  \<open>2 * (p[i][j] - t[i][j]) / (rows * cols)\<close>.
\<close>

definition entry :: "Tensor \<Rightarrow> nat \<Rightarrow> nat \<Rightarrow> real" where
  "entry t i j = toReal (data t ! i ! j)"

definition setEntry :: "Tensor \<Rightarrow> nat \<Rightarrow> nat \<Rightarrow> jsnum \<Rightarrow> Tensor" where
  "setEntry t i j v = t\<lparr>data := (data t)[i := (data t ! i)[j := v]]\<rparr>"

definition sqd :: "Tensor \<Rightarrow> Tensor \<Rightarrow> nat \<Rightarrow> nat \<Rightarrow> real" where
  "sqd p t i j = (entry p i j - entry t i j) * (entry p i j - entry t i j)"

definition gradEntry :: "Tensor \<Rightarrow> Tensor \<Rightarrow> nat \<Rightarrow> nat \<Rightarrow> real" where
  "gradEntry p t i j = 2 * (entry p i j - entry t i j) / real (rows p * cols p)"



text \<open>The two bias-correction factors of Adam at step \<open>t\<close>: \<open>1 - \<beta>1^t\<close> and \<open>1 - \<beta>2^t\<close>.\<close>

definition corr1 :: "nat \<Rightarrow> jsnum" where
  "corr1 t = jsub (Num 1) (jpow beta1 t)"

definition corr2 :: "nat \<Rightarrow> jsnum" where
  "corr2 t = jsub (Num 1) (jpow beta2 t)"

section \<open>Dependency order of expressions (graph-analysis.ts)\<close>

text \<open>
  \<^verbatim>\<open>interface Expression { id; label; text; color; visible }\<close>; the fields \<^verbatim>\<open>id\<close> and
  \<^verbatim>\<open>text\<close> are named \<open>expr_id\<close> and \<open>expr_text\<close>. Strings are lists of 8-bit
  characters: \<open>toLowerCase\<close> lowers the letters \<open>A\<close> to \<open>Z\<close>, and \<open>matchRefs\<close> is
  \<^verbatim>\<open>s.match(/y\d+/g) || []\<close>, the non-overlapping matches of a \<open>y\<close> followed by one or
  more decimal digits, from left to right, each as long as possible.

  \<open>visit\<close> is the inner function of \<open>topologicalSort\<close>; the list of expressions stands
  for the captured \<^verbatim>\<open>labelToExpr\<close>, and the pair \<open>(visited, result)\<close> for the two
  captured variables it updates. The source passes one mutable set \<^verbatim>\<open>visiting\<close> down the
  recursion, adding the label before the loop over the references and deleting it after:
  every call returns with the set as it found it, so each nested call sees the caller's
  set with the caller's label added, which is what the model passes.
\<close>

record Expression =
  expr_id :: string
  label :: string
  expr_text :: string
  color :: string
  visible :: bool

definition lowerChar :: "char \<Rightarrow> char" where
  "lowerChar c =
     (let n = (of_char c :: nat) in if 65 \<le> n \<and> n \<le> 90 then char_of (n + 32) else c)"

definition toLowerCase :: "string \<Rightarrow> string" where
  "toLowerCase s = map lowerChar s"

definition isDigit :: "char \<Rightarrow> bool" where
  "isDigit c = (let n = (of_char c :: nat) in 48 \<le> n \<and> n \<le> 57)"

function matchRefs :: "string \<Rightarrow> string list" where
  "matchRefs [] = []"
| "matchRefs (c # cs) =
     (if c = CHR ''y'' \<and> takeWhile isDigit cs \<noteq> []
      then (c # takeWhile isDigit cs) # matchRefs (dropWhile isDigit cs)
      else matchRefs cs)"
  by pat_completeness auto
termination
  by (relation "measure length") (auto simp: length_dropWhile_le less_Suc_eq_le)

definition labelToExpr :: "Expression list \<Rightarrow> string \<Rightarrow> Expression option" where
  "labelToExpr expressions =
     foldl (\<lambda>m e. m(toLowerCase (label e) \<mapsto> e)) Map.empty expressions"

definition refsOf :: "Expression \<Rightarrow> string list" where
  "refsOf expr = matchRefs (toLowerCase (expr_text expr))"

function visit ::
    "Expression list \<Rightarrow> string \<Rightarrow> string set \<Rightarrow> string set \<times> Expression list
       \<Rightarrow> string set \<times> Expression list"
  and visitRefs ::
    "Expression list \<Rightarrow> string list \<Rightarrow> string set \<Rightarrow> string set \<times> Expression list
       \<Rightarrow> string set \<times> Expression list" where
  "visit es lbl visiting (visited, result) =
     (if lbl \<in> visited then (visited, result)
      else if lbl \<in> visiting then (visited, result)
      else case labelToExpr es lbl of
             None \<Rightarrow> (visited, result)
           | Some expr \<Rightarrow>
               (case visitRefs es (refsOf expr) (insert lbl visiting) (visited, result) of
                  (visited', result') \<Rightarrow> (insert lbl visited', result' @ [expr])))"
| "visitRefs es [] visiting s = s"
| "visitRefs es (r # rs) visiting s = visitRefs es rs visiting (visit es r visiting s)"
  by pat_completeness auto

lemma dom_foldl_labelToExpr:
  "dom (foldl (\<lambda>m e. m(toLowerCase (label e) \<mapsto> e)) m0 es)
     = dom m0 \<union> (\<lambda>e. toLowerCase (label e)) ` set es"
  by (induction es arbitrary: m0) auto

lemma dom_labelToExpr: "dom (labelToExpr es) = (\<lambda>e. toLowerCase (label e)) ` set es"
  by (simp add: labelToExpr_def dom_foldl_labelToExpr)

lemma finite_dom_labelToExpr: "finite (dom (labelToExpr es))"
  by (simp add: dom_labelToExpr)

lemma card_unvisited_less:
  assumes "lbl \<notin> visiting" "labelToExpr es lbl = Some expr"
  shows "card (dom (labelToExpr es) - insert lbl visiting) < card (dom (labelToExpr es) - visiting)"
proof -
  have m: "lbl \<in> dom (labelToExpr es) - visiting" using assms by auto
  have f: "finite (dom (labelToExpr es) - visiting)"
    using finite_dom_labelToExpr by simp
  have "card ((dom (labelToExpr es) - visiting) - {lbl}) < card (dom (labelToExpr es) - visiting)"
    using f m by (rule card_Diff1_less)
  moreover have "dom (labelToExpr es) - insert lbl visiting = (dom (labelToExpr es) - visiting) - {lbl}"
    by auto
  ultimately show ?thesis by simp
qed

termination visit
  by (relation "inv_image (measure (\<lambda>n. n) <*lex*> measure (\<lambda>n. n))
    (\<lambda>x. case x of
       Inl (es, lbl, visiting, s) \<Rightarrow> (card (dom (labelToExpr es) - visiting), 0)
     | Inr (es, rs, visiting, s) \<Rightarrow> (card (dom (labelToExpr es) - visiting), Suc (length rs)))")
     (auto simp: card_unvisited_less)

text \<open>
  Notions used to state the properties of the sort: the lower-cased label of an
  expression, the dependency graph on labels (an edge from a label to each label its
  expression's text refers to, when that label is in the map), and \<open>precedes a b xs\<close>:
  \<open>b\<close> occurs in \<open>xs\<close> and \<open>a\<close> occurs before the first \<open>b\<close>. \<open>sortInv\<close> and
  \<open>ordered\<close> are the invariants of the traversal.
\<close>

definition lbl :: "Expression \<Rightarrow> string" where
  "lbl e = toLowerCase (label e)"

definition sortInv :: "Expression list \<Rightarrow> string set \<times> Expression list \<Rightarrow> bool" where
  "sortInv es s =
     (fst s = lbl ` set (snd s) \<and>
      (\<forall>e \<in> set (snd s). labelToExpr es (lbl e) = Some e) \<and>
      distinct (map lbl (snd s)))"

definition depEdges :: "Expression list \<Rightarrow> (string \<times> string) set" where
  "depEdges es =
     {(l, r). \<exists>e. labelToExpr es l = Some e \<and> r \<in> set (refsOf e) \<and> r \<in> dom (labelToExpr es)}"

definition precedes :: "'a \<Rightarrow> 'a \<Rightarrow> 'a list \<Rightarrow> bool" where
  "precedes a b xs = (b \<in> set xs \<and> a \<in> set (takeWhile (\<lambda>x. x \<noteq> b) xs))"

definition ordered :: "Expression list \<Rightarrow> Expression list \<Rightarrow> bool" where
  "ordered es R =
     (\<forall>i<length R. \<forall>r \<in> set (refsOf (R ! i)).
        r \<in> dom (labelToExpr es) \<longrightarrow> r \<in> lbl ` set (take i R))"

definition topologicalSort :: "Expression list \<Rightarrow> Expression list" where
  "topologicalSort expressions =
     snd (foldl (\<lambda>s expr. visit expressions (toLowerCase (label expr)) {} s) ({}, []) expressions)"

section \<open>Debug engine (debug-engine.ts)\<close>

text \<open>
  A snapshot records the step type, the layer, the network state and the computation.
  Of \<^verbatim>\<open>ComputationDetail\<close> the values are kept (inputs, output, operation, layer); its
  display strings (formula, description, the names of the inputs) and the timestamp of
  the snapshot, read from the clock, are left out: no operation of the engine reads them.

  \<^verbatim>\<open>getCurrentState\<close> puts the engine's array \<^verbatim>\<open>forwardActivations\<close> itself into the
  snapshot (not a copy) when it is not empty, and \<^verbatim>\<open>undefined\<close> otherwise. A new array
  is put in place only by \<open>setData\<close>, which also empties the history, so every snapshot
  of the history that has activations shares the engine's current array, later writes
  to it included. The field \<open>ns_activationsShared\<close> records whether the snapshot has
  that reference.
\<close>

datatype StepType = StepForward | StepBackward | StepUpdate | StepLoss

datatype Value = VTensor Tensor | VVector "jsnum list" | VNumber jsnum | VUndefined

record ComputationDetail =
  cd_inputs :: "Value list"
  cd_output :: Value
  cd_operation :: string
  cd_layerIndex :: "nat option"

record NetworkState =
  ns_weights :: "Tensor list"
  ns_biases :: "jsnum list list"
  ns_activationsShared :: bool
  ns_gradients :: "(Tensor list \<times> jsnum list list) option"

record StepSnapshot =
  stepType :: StepType
  layerIndex :: "nat option"
  networkState :: NetworkState
  computation :: ComputationDetail
  stepNumber :: int

text \<open>
  The fields of the class. \<^verbatim>\<open>forwardActivations\<close> is an array that is written by index,
  also beyond its length; \<open>None\<close> is a hole. Layer indices are natural numbers.
\<close>

record DebugEngine =
  network :: Network
  optimizer :: Optimizer
  stepHistory :: "StepSnapshot list"
  currentStepIndex :: int
  currentInput :: "Tensor option"
  currentTarget :: "Tensor option"
  forwardActivations :: "Tensor option list"
  currentLoss :: "jsnum option"
  lossGradient :: "Tensor option"
  currentOptimizerType :: "OptimizerType option"

definition setData :: "DebugEngine \<Rightarrow> Tensor \<Rightarrow> Tensor \<Rightarrow> DebugEngine" where
  "setData e input target =
     e\<lparr>currentInput := Some input, currentTarget := Some target, forwardActivations := [],
       currentLoss := None, lossGradient := None, stepHistory := [], currentStepIndex := - 1\<rparr>"

definition getCurrentState :: "DebugEngine \<Rightarrow> NetworkState" where
  "getCurrentState e =
     (let (ws, bs) = getState (network e)
      in \<lparr>ns_weights = ws, ns_biases = bs,
          ns_activationsShared = (length (forwardActivations e) > 0),
          ns_gradients = getGradients (network e)\<rparr>)"

text \<open>\<^verbatim>\<open>xs.slice(0, stop)\<close>; a negative \<open>stop\<close> counts from the end of the array.\<close>

definition slice0 :: "'a list \<Rightarrow> int \<Rightarrow> 'a list" where
  "slice0 xs stop =
     (if stop < 0 then take (nat (int (length xs) + stop)) xs else take (nat stop) xs)"

definition getStepHistory :: "DebugEngine \<Rightarrow> StepSnapshot list" where
  "getStepHistory e = slice0 (stepHistory e) (currentStepIndex e + 1)"

text \<open>
  The three statements that end every step:
  \<^verbatim>\<open>currentStepIndex++; stepHistory = stepHistory.slice(0, currentStepIndex); stepHistory.push(snapshot)\<close>.
\<close>

definition pushSnapshot :: "DebugEngine \<Rightarrow> StepSnapshot \<Rightarrow> DebugEngine" where
  "pushSnapshot e snapshot =
     (let idx = currentStepIndex e + 1
      in e\<lparr>currentStepIndex := idx, stepHistory := slice0 (stepHistory e) idx @ [snapshot]\<rparr>)"

text \<open>\<^verbatim>\<open>forwardActivations[i] = v\<close> and \<^verbatim>\<open>forwardActivations[i]\<close>.\<close>

definition setActivation :: "Tensor option list \<Rightarrow> nat \<Rightarrow> Tensor \<Rightarrow> Tensor option list" where
  "setActivation fa i v =
     (if i < length fa then fa[i := Some v] else fa @ replicate (i - length fa) None @ [Some v])"

definition activationAt :: "Tensor option list \<Rightarrow> nat \<Rightarrow> Tensor option" where
  "activationAt fa i = (case arrayAt fa i of None \<Rightarrow> None | Some v \<Rightarrow> v)"

text \<open>\<^verbatim>\<open>forwardActivations[forwardActivations.length - 1]\<close>: undefined on the empty array.\<close>

definition lastActivation :: "Tensor option list \<Rightarrow> Tensor option" where
  "lastActivation fa = (if fa = [] then None else activationAt fa (length fa - 1))"

definition tensorValue :: "Tensor option \<Rightarrow> Value" where
  "tensorValue t = (case t of None \<Rightarrow> VUndefined | Some v \<Rightarrow> VTensor v)"

definition stepForwardLayer :: "DebugEngine \<Rightarrow> nat \<Rightarrow> DebugEngine \<times> (error + StepSnapshot)" where
  "stepForwardLayer e i =
     (case currentInput e of
        None \<Rightarrow> (e, Inl (Error ''No input data set''))
      | Some inp \<Rightarrow>
          let input = (if i = 0 then Some inp else activationAt (forwardActivations e) (i - 1));
              (net', r) = forwardLayer (network e) i input;
              e1 = e\<lparr>network := net'\<rparr>
          in case r of
               Inl err \<Rightarrow> (e1, Inl err)
             | Inr output \<Rightarrow>
                 let e2 = e1\<lparr>forwardActivations := setActivation (forwardActivations e1) i output\<rparr>
                 in case arrayAt (layers (network e2)) i of
                      None \<Rightarrow> (e2, Inl TypeError)
                    | Some layer \<Rightarrow>
                        let snapshot =
                              \<lparr>stepType = StepForward, layerIndex = Some i,
                               networkState = getCurrentState e2,
                               computation =
                                 \<lparr>cd_inputs = [tensorValue input, VTensor (weights layer),
                                               VVector (bias layer)],
                                  cd_output = VTensor output, cd_operation = ''forward'',
                                  cd_layerIndex = Some i\<rparr>,
                               stepNumber = currentStepIndex e2 + 1\<rparr>
                        in (pushSnapshot e2 snapshot, Inr snapshot))"

text \<open>The loop of \<open>stepComputeLoss\<close> that completes the forward pass.\<close>

fun forwardRemaining ::
    "DebugEngine \<Rightarrow> nat list \<Rightarrow> Tensor \<Rightarrow> DebugEngine \<times> (error + Tensor)" where
  "forwardRemaining e [] current = (e, Inr current)"
| "forwardRemaining e (i # rest) current =
     (let (net', r) = forwardLayer (network e) i (Some current);
          e1 = e\<lparr>network := net'\<rparr>
      in case r of
           Inl err \<Rightarrow> (e1, Inl err)
         | Inr out \<Rightarrow>
             forwardRemaining
               (e1\<lparr>forwardActivations := setActivation (forwardActivations e1) i out\<rparr>) rest out)"

definition stepComputeLoss :: "DebugEngine \<Rightarrow> DebugEngine \<times> (error + StepSnapshot)" where
  "stepComputeLoss e =
     (case (currentInput e, currentTarget e) of
        (Some inp, Some target) \<Rightarrow>
          let (e1, r) =
                (if length (forwardActivations e) < length (layers (network e))
                 then forwardRemaining e [0..<length (layers (network e))] inp
                 else (e, Inr inp))
          in (case r of
                Inl err \<Rightarrow> (e1, Inl err)
              | Inr _ \<Rightarrow>
                  (case lastActivation (forwardActivations e1) of
                     None \<Rightarrow> (e1, Inl TypeError)
                   | Some predictions \<Rightarrow>
                       (case loss_compute (lossFunction (network e1)) predictions target of
                          Inl err \<Rightarrow> (e1, Inl err)
                        | Inr l \<Rightarrow>
                            let e2 = e1\<lparr>currentLoss := Some l\<rparr>;
                                snapshot =
                                  \<lparr>stepType = StepLoss, layerIndex = None,
                                   networkState = getCurrentState e2,
                                   computation =
                                     \<lparr>cd_inputs = [VTensor predictions, VTensor target],
                                      cd_output = VNumber l, cd_operation = ''loss'',
                                      cd_layerIndex = None\<rparr>,
                                   stepNumber = currentStepIndex e2 + 1\<rparr>
                            in (pushSnapshot e2 snapshot, Inr snapshot))))
      | _ \<Rightarrow> (e, Inl (Error ''Input and target data must be set'')))"

definition stepBackwardLossGradient :: "DebugEngine \<Rightarrow> DebugEngine \<times> (error + StepSnapshot)" where
  "stepBackwardLossGradient e =
     (case (currentTarget e, currentLoss e) of
        (Some target, Some _) \<Rightarrow>
          (case lastActivation (forwardActivations e) of
             None \<Rightarrow> (e, Inl TypeError)
           | Some predictions \<Rightarrow>
               (case loss_gradient (lossFunction (network e)) predictions target of
                  Inl err \<Rightarrow> (e, Inl err)
                | Inr grad \<Rightarrow>
                    let e1 = e\<lparr>lossGradient := Some grad\<rparr>;
                        snapshot =
                          \<lparr>stepType = StepBackward, layerIndex = None,
                           networkState = getCurrentState e1,
                           computation =
                             \<lparr>cd_inputs = [VTensor predictions, VTensor target],
                              cd_output = VTensor grad, cd_operation = ''loss_gradient'',
                              cd_layerIndex = None\<rparr>,
                           stepNumber = currentStepIndex e1 + 1\<rparr>
                    in (pushSnapshot e1 snapshot, Inr snapshot)))
      | _ \<Rightarrow> (e, Inl (Error ''Must compute loss first'')))"

definition setLayer :: "DebugEngine \<Rightarrow> nat \<Rightarrow> Layer \<Rightarrow> DebugEngine" where
  "setLayer e i l = e\<lparr>network := (network e)\<lparr>layers := (layers (network e))[i := l]\<rparr>\<rparr>"

definition stepBackwardLayer :: "DebugEngine \<Rightarrow> nat \<Rightarrow> DebugEngine \<times> (error + StepSnapshot)" where
  "stepBackwardLayer e i =
     (case lossGradient e of
        None \<Rightarrow> (e, Inl (Error ''Must compute loss gradient first''))
      | Some lossGrad \<Rightarrow>
          if int i = int (length (layers (network e))) - 1
          then (case arrayAt (layers (network e)) i of
                  None \<Rightarrow> (e, Inl TypeError)
                | Some layer \<Rightarrow>
                    let (layer', r) = layer_backward layer lossGrad;
                        e1 = setLayer e i layer'
                    in case r of
                         Inl err \<Rightarrow> (e1, Inl err)
                       | Inr outputGrad \<Rightarrow>
                           let snapshot =
                                 \<lparr>stepType = StepBackward, layerIndex = Some i,
                                  networkState = getCurrentState e1,
                                  computation =
                                    \<lparr>cd_inputs = [VTensor lossGrad, tensorValue (lastInput layer'),
                                                  VTensor (weights layer')],
                                     cd_output = VTensor outputGrad, cd_operation = ''backward'',
                                     cd_layerIndex = Some i\<rparr>,
                                  stepNumber = currentStepIndex e1 + 1\<rparr>
                           in (pushSnapshot e1 snapshot, Inr snapshot))
          else (e, Inl (Error ''Backward pass must be done in reverse order'')))"

text \<open>
  The loop of \<open>stepBackwardComplete\<close>, from the last layer down to layer 0: the gradient
  returned by one layer is the incoming gradient of the layer before it. The snapshots
  made are returned in the order of the loop.
\<close>

fun backwardLoop ::
    "DebugEngine \<Rightarrow> nat list \<Rightarrow> Tensor \<Rightarrow> StepSnapshot list
       \<Rightarrow> DebugEngine \<times> (error + StepSnapshot list)" where
  "backwardLoop e [] currentGrad snapshots = (e, Inr snapshots)"
| "backwardLoop e (i # rest) currentGrad snapshots =
     (case arrayAt (layers (network e)) i of
        None \<Rightarrow> (e, Inl TypeError)
      | Some layer \<Rightarrow>
          let (layer', r) = layer_backward layer currentGrad;
              e1 = setLayer e i layer'
          in case r of
               Inl err \<Rightarrow> (e1, Inl err)
             | Inr grad \<Rightarrow>
                 let snapshot =
                       \<lparr>stepType = StepBackward, layerIndex = Some i,
                        networkState = getCurrentState e1,
                        computation =
                          \<lparr>cd_inputs = [VTensor grad, tensorValue (lastInput layer'),
                                        VTensor (weights layer')],
                           cd_output = tensorValue (weightGrad layer'),
                           cd_operation = ''backward'', cd_layerIndex = Some i\<rparr>,
                        stepNumber = currentStepIndex e1 + 1\<rparr>
                 in backwardLoop (pushSnapshot e1 snapshot) rest grad (snapshots @ [snapshot]))"

definition stepBackwardComplete :: "DebugEngine \<Rightarrow> DebugEngine \<times> (error + StepSnapshot list)" where
  "stepBackwardComplete e =
     (let (e1, r) = (if lossGradient e = None
                     then (case stepBackwardLossGradient e of
                             (e', Inl err) \<Rightarrow> (e', Inl err)
                           | (e', Inr _) \<Rightarrow> (e', Inr ()))
                     else (e, Inr ()))
      in case r of
           Inl err \<Rightarrow> (e1, Inl err)
         | Inr _ \<Rightarrow>
             (case lossGradient e1 of
                None \<Rightarrow> (e1, Inl TypeError)
              | Some currentGrad \<Rightarrow>
                  backwardLoop e1 (rev [0..<length (layers (network e1))]) currentGrad []))"

text \<open>
  \<open>restoreState\<close> assigns \<^verbatim>\<open>weights[i]\<close> and \<^verbatim>\<open>biases[i]\<close> of the snapshot to every
  layer. A snapshot made by this engine lists every layer. For a snapshot with fewer
  entries than the network has layers the source stores \<^verbatim>\<open>undefined\<close> into the layer;
  the model, whose layers always have weights, reports \<open>UndefinedParameters\<close> there.
  The assignment of the activations puts the shared array back in place and changes
  nothing.
\<close>

definition restoreState :: "DebugEngine \<Rightarrow> StepSnapshot \<Rightarrow> error + DebugEngine" where
  "restoreState e snapshot =
     (let ws = ns_weights (networkState snapshot);
          bs = ns_biases (networkState snapshot);
          ls = layers (network e)
      in if length ws < length ls \<or> length bs < length ls then Inl UndefinedParameters
         else Inr (e\<lparr>network := (network e)
                       \<lparr>layers := imap (\<lambda>i l. l\<lparr>weights := ws ! i, bias := bs ! i\<rparr>) ls\<rparr>\<rparr>))"

text \<open>
  \<open>undo\<close> and \<open>redo\<close> return the boolean of the source, or the exception raised by
  reading a snapshot that is not there (\<^verbatim>\<open>stepHistory[i]\<close> undefined).
\<close>

definition undo :: "DebugEngine \<Rightarrow> DebugEngine \<times> (error + bool)" where
  "undo e =
     (if currentStepIndex e \<le> 0 then (e, Inr False)
      else
        let e1 = e\<lparr>currentStepIndex := currentStepIndex e - 1\<rparr>
        in case arrayAt (stepHistory e1) (nat (currentStepIndex e1)) of
             None \<Rightarrow> (e1, Inl TypeError)
           | Some snapshot \<Rightarrow>
               (case restoreState e1 snapshot of
                  Inl err \<Rightarrow> (e1, Inl err)
                | Inr e2 \<Rightarrow> (e2, Inr True)))"

definition redo :: "DebugEngine \<Rightarrow> DebugEngine \<times> (error + bool)" where
  "redo e =
     (if currentStepIndex e \<ge> int (length (stepHistory e)) - 1 then (e, Inr False)
      else
        let e1 = e\<lparr>currentStepIndex := currentStepIndex e + 1\<rparr>
        in case (if currentStepIndex e1 < 0 then None
                 else arrayAt (stepHistory e1) (nat (currentStepIndex e1))) of
             None \<Rightarrow> (e1, Inl TypeError)
           | Some snapshot \<Rightarrow>
               (case restoreState e1 snapshot of
                  Inl err \<Rightarrow> (e1, Inl err)
                | Inr e2 \<Rightarrow> (e2, Inr True)))"

text \<open>
  A layer and an engine as their constructors leave them, with the randomly drawn
  weights given instead: zero bias, no cached tensors, an empty history, step index
  \<open>-1\<close>, no data, no loss and no loss gradient.
\<close>

definition newLayer :: "Tensor \<Rightarrow> Activation \<Rightarrow> Layer" where
  "newLayer w act =
     \<lparr>weights = w, bias = replicate (rows w) (Num 0), activation = act,
      inputSize = cols w, outputSize = rows w, lastInput = None,
      preActivationOutput = None, weightGrad = None, biasGrad = None\<rparr>"

definition newEngine :: "Layer list \<Rightarrow> Loss \<Rightarrow> OptimizerType \<Rightarrow> DebugEngine" where
  "newEngine ls lossType optimizerType =
     \<lparr>network = \<lparr>layers = ls, lossFunction = lossType\<rparr>,
      optimizer = optimizer_reset (getOptimizer optimizerType),
      stepHistory = [], currentStepIndex = - 1, currentInput = None, currentTarget = None,
      forwardActivations = [], currentLoss = None, lossGradient = None,
      currentOptimizerType = Some optimizerType\<rparr>"

text \<open>
  Sequences of calls that do not compute the loss gradient: forward steps, the loss step,
  backward-layer steps, undo and redo, in any order. \<open>runOps e ops\<close> is the engine after
  the calls \<open>ops\<close>, each of which may return or throw.
\<close>

datatype EngineOp = ForwardLayer nat | ComputeLoss | BackwardLayer nat | Undo | Redo

fun applyOp :: "DebugEngine \<Rightarrow> EngineOp \<Rightarrow> DebugEngine" where
  "applyOp e (ForwardLayer i) = fst (stepForwardLayer e i)"
| "applyOp e ComputeLoss = fst (stepComputeLoss e)"
| "applyOp e (BackwardLayer i) = fst (stepBackwardLayer e i)"
| "applyOp e Undo = fst (undo e)"
| "applyOp e Redo = fst (redo e)"

definition runOps :: "DebugEngine \<Rightarrow> EngineOp list \<Rightarrow> DebugEngine" where
  "runOps e ops = foldl applyOp e ops"

section \<open>An example run\<close>

text \<open>
  \<open>demoEngine\<close> has two linear layers with one weight each, \<open>2\<close> and \<open>-1\<close>, and the
  loss MSE. \<open>demo0\<close> to \<open>demo5\<close> are the states of one run on the input \<open>3\<close> with the
  target \<open>7\<close>: after \<open>setData\<close>, the two forward steps, the loss, the loss gradient, and
  the backward step of the last layer. \<open>layerF w x\<close> is a one-weight layer after its
  forward pass on the input \<open>x\<close>.
\<close>

definition scalar :: "real \<Rightarrow> Tensor" where
  "scalar r = \<lparr>data = [[Num r]], rows = 1, cols = 1\<rparr>"

definition layerF :: "real \<Rightarrow> real \<Rightarrow> Layer" where
  "layerF w x = (newLayer (scalar w) Linear)
     \<lparr>lastInput := Some (scalar x), preActivationOutput := Some (scalar (x * w))\<rparr>"

definition demoEngine :: DebugEngine where
  "demoEngine = newEngine [newLayer (scalar 2) Linear, newLayer (scalar (- 1)) Linear] MSE sgd"

definition demo0 :: DebugEngine where
  "demo0 = setData demoEngine (scalar 3) (scalar 7)"

definition demo1 :: DebugEngine where
  "demo1 = fst (stepForwardLayer demo0 0)"

definition demo2 :: DebugEngine where
  "demo2 = fst (stepForwardLayer demo1 1)"

definition demo3 :: DebugEngine where
  "demo3 = fst (stepComputeLoss demo2)"

definition demo4 :: DebugEngine where
  "demo4 = fst (stepBackwardLossGradient demo3)"

definition demo5 :: DebugEngine where
  "demo5 = fst (stepBackwardLayer demo4 1)"

section \<open>Properties of the normal equation\<close>






section \<open>Properties of the tensor algebra\<close>

lemma bindE_Inr [simp]: "bindE (Inr v) f = f v"
  by (simp add: bindE_def)

lemma bindE_Inl [simp]: "bindE (Inl e) f = Inl e"
  by (simp add: bindE_def)

lemma mapE_Inr: "(\<And>x. x \<in> set xs \<Longrightarrow> f x = Inr (g x)) \<Longrightarrow> mapE f xs = Inr (map g xs)"
  by (induction xs) auto

lemma at2_in_range: "i < length d \<Longrightarrow> j < length (d ! i) \<Longrightarrow> at2 d i j = Inr (d ! i ! j)"
  by (simp add: at2_def arrayAt_def numAt_def)

lemma wellFormed_row: "wellFormed t \<Longrightarrow> i < rows t \<Longrightarrow> length (data t ! i) = cols t"
  by (simp add: wellFormed_def)

lemma wellFormed_at2: "wellFormed t \<Longrightarrow> i < rows t \<Longrightarrow> j < cols t \<Longrightarrow> at2 (data t) i j = Inr (data t ! i ! j)"
  by (simp add: wellFormed_def at2_in_range)

lemma transpose_wellFormed:
  assumes "wellFormed t"
  shows "transpose_t t =
    Inr \<lparr>data = map (\<lambda>j. map (\<lambda>i. data t ! i ! j) [0..<rows t]) [0..<cols t],
         rows = cols t, cols = rows t\<rparr>"
proof -
  have inner: "mapE (\<lambda>i. at2 (data t) i j) [0..<rows t] = Inr (map (\<lambda>i. data t ! i ! j) [0..<rows t])"
    if "j < cols t" for j
    by (rule mapE_Inr) (use assms that in \<open>simp add: wellFormed_at2\<close>)
  have "mapE (\<lambda>j. mapE (\<lambda>i. at2 (data t) i j) [0..<rows t]) [0..<cols t]
        = Inr (map (\<lambda>j. map (\<lambda>i. data t ! i ! j) [0..<rows t]) [0..<cols t])"
    by (rule mapE_Inr) (simp add: inner)
  then show ?thesis by (simp add: transpose_t_def)
qed

lemma transpose_transpose:
  assumes "wellFormed t"
  shows "bindE (transpose_t t) transpose_t = Inr t"
proof -
  let ?t' = "\<lparr>data = map (\<lambda>j. map (\<lambda>i. data t ! i ! j) [0..<rows t]) [0..<cols t],
         rows = cols t, cols = rows t\<rparr>"
  have wf': "wellFormed ?t'" by (auto simp: wellFormed_def)
  have d: "map (\<lambda>j. map (\<lambda>i. data ?t' ! i ! j) [0..<rows ?t']) [0..<cols ?t'] = data t"
    using assms by (auto simp: wellFormed_def intro!: nth_equalityI)
  have "transpose_t ?t' = Inr \<lparr>data = data t, rows = rows t, cols = cols t\<rparr>"
    using transpose_wellFormed [OF wf'] d by simp
  then show ?thesis using transpose_wellFormed [OF assms] by simp
qed

lemma forE_Suc: "forE (Suc n) init body = bindE (forE n init body) (\<lambda>s. body s n)"
  by (simp add: forE_def)

lemma forE_0 [simp]: "forE 0 init body = Inr init"
  by (simp add: forE_def)

lemma matmulEntry_identity:
  assumes "i < length (data a)" "length (data a ! i) = cols a" "\<forall>v \<in> set (data a ! i). isFinite v"
    "j < cols a" "n \<le> cols a"
  shows "forE n (Num 0)
       (\<lambda>s k. bindE (at2 (data a) i k) (\<lambda>x. bindE (at2 (data (identity (cols a))) k j) (\<lambda>y.
                   Inr (jadd s (jmul x y)))))
     = Inr (if j < n then data a ! i ! j else Num 0)"
  using assms(5)
proof (induction n)
  case 0
  then show ?case by simp
next
  case (Suc n)
  then have n: "n < cols a" by simp
  have "isFinite (data a ! i ! n)" using assms n by (simp add: )
  then obtain r where r: "data a ! i ! n = Num r" by (cases "data a ! i ! n") auto
  have "isFinite (data a ! i ! j)" using assms by simp
  then obtain q where q: "data a ! i ! j = Num q" by (cases "data a ! i ! j") auto
  have a: "at2 (data a) i n = Inr (Num r)" using assms n r by (simp add: at2_in_range)
  have b: "at2 (data (identity (cols a))) n j = Inr (if n = j then Num 1 else Num 0)"
    using assms n by (simp add: at2_in_range identity_def)
  from Suc n have ih: "forE n (Num 0)
       (\<lambda>s k. bindE (at2 (data a) i k) (\<lambda>x. bindE (at2 (data (identity (cols a))) k j) (\<lambda>y.
                   Inr (jadd s (jmul x y)))))
     = Inr (if j < n then data a ! i ! j else Num 0)" by simp
  show ?case
  proof (cases "n = j")
    case True
    then show ?thesis using ih a b r by (simp add: forE_Suc)
  next
    case False
    then show ?thesis using ih a b q by (auto simp: forE_Suc)
  qed
qed

lemma matmul_identity:
  assumes "wellFormed a" "allFinite a"
  shows "matmul a (identity (cols a)) = Inr a"
proof -
  have e: "matmulEntry a (identity (cols a)) i j = Inr (data a ! i ! j)"
    if "i < rows a" "j < cols a" for i j
  proof -
    have 1: "i < length (data a)" using assms that by (simp add: wellFormed_def)
    have 2: "length (data a ! i) = cols a" using assms that by (simp add: wellFormed_row)
    have 3: "\<forall>v \<in> set (data a ! i). isFinite v" using assms 1 nth_mem [OF 1] by (auto simp: allFinite_def)
    show ?thesis unfolding matmulEntry_def
      using matmulEntry_identity [OF 1 2 3 that(2) order_refl] that by simp
  qed
  have row: "mapE (\<lambda>j. matmulEntry a (identity (cols a)) i j) [0..<cols (identity (cols a))]
        = Inr (data a ! i)" if "i < rows a" for i
  proof -
    have "mapE (\<lambda>j. matmulEntry a (identity (cols a)) i j) [0..<cols a]
        = Inr (map (\<lambda>j. data a ! i ! j) [0..<cols a])"
      by (rule mapE_Inr) (use that in \<open>simp add: e\<close>)
    moreover have "map (\<lambda>j. data a ! i ! j) [0..<cols a] = data a ! i"
      using assms that by (auto simp: wellFormed_def intro!: nth_equalityI)
    ultimately show ?thesis by (simp add: identity_def)
  qed
  have "mapE (\<lambda>i. mapE (\<lambda>j. matmulEntry a (identity (cols a)) i j) [0..<cols (identity (cols a))]) [0..<rows a]
      = Inr (map (\<lambda>i. data a ! i) [0..<rows a])"
    by (rule mapE_Inr) (simp add: row)
  moreover have "map (\<lambda>i. data a ! i) [0..<rows a] = data a"
    using assms by (auto simp: wellFormed_def intro!: nth_equalityI)
  ultimately show ?thesis by (simp add: matmul_def identity_def)
qed

text \<open>
  Claim C8, as amended. For every well-formed tensor \<open>A\<close>, transposing twice gives \<open>A\<close>
  back; and when in addition every entry of \<open>A\<close> is a finite number, multiplying \<open>A\<close>
  by the identity matrix of size \<open>cols A\<close> gives \<open>A\<close>.
\<close>

theorem transpose_twice_matmul_identity:
  "wellFormed A \<Longrightarrow>
     bindE (transpose_t A) transpose_t = Inr A \<and>
     (allFinite A \<longrightarrow> matmul A (identity (cols A)) = Inr A)"
  using transpose_transpose [of A] matmul_identity [of A] by blast

theorem transpose_twice_matmul_identity_witness:
  "wellFormed \<lparr>data = [[Num 1, Num 2], [Num 3, Num 4]], rows = 2, cols = 2\<rparr> \<and>
   allFinite \<lparr>data = [[Num 1, Num 2], [Num 3, Num 4]], rows = 2, cols = 2\<rparr> \<and>
   bindE (transpose_t \<lparr>data = [[Num 1, Num 2], [Num 3, Num 4]], rows = 2, cols = 2\<rparr>) transpose_t
     = Inr \<lparr>data = [[Num 1, Num 2], [Num 3, Num 4]], rows = 2, cols = 2\<rparr> \<and>
   matmul \<lparr>data = [[Num 1, Num 2], [Num 3, Num 4]], rows = 2, cols = 2\<rparr> (identity 2)
     = Inr \<lparr>data = [[Num 1, Num 2], [Num 3, Num 4]], rows = 2, cols = 2\<rparr>"
  using transpose_twice_matmul_identity
          [of "\<lparr>data = [[Num 1, Num 2], [Num 3, Num 4]], rows = 2, cols = 2\<rparr>"]
  by (simp add: wellFormed_def allFinite_def)

text \<open>
  The claim as stated, for every well-formed tensor, fails on an infinite entry:
  \<open>Infinity * 0\<close> is \<open>NaN\<close>, so the product with the identity has \<open>NaN\<close> where the
  tensor has zero.
\<close>

theorem matmul_identity_counterexample:
  "wellFormed \<lparr>data = [[PosInf, Num 0]], rows = 1, cols = 2\<rparr> \<and>
   matmul \<lparr>data = [[PosInf, Num 0]], rows = 1, cols = 2\<rparr>
          (identity (cols \<lparr>data = [[PosInf, Num 0]], rows = 1, cols = 2\<rparr>))
     = Inr \<lparr>data = [[PosInf, NaN]], rows = 1, cols = 2\<rparr> \<and>
   matmul \<lparr>data = [[PosInf, Num 0]], rows = 1, cols = 2\<rparr>
          (identity (cols \<lparr>data = [[PosInf, Num 0]], rows = 1, cols = 2\<rparr>))
     \<noteq> Inr \<lparr>data = [[PosInf, Num 0]], rows = 1, cols = 2\<rparr>"
  by (simp add: wellFormed_def matmul_def matmulEntry_def identity_def forE_def at2_def
        arrayAt_def numAt_def infOfSign_def upt_rec numeral_2_eq_2)

section \<open>Properties of Softmax\<close>

lemma isFinite_Num: "isFinite v \<Longrightarrow> v = Num (toReal v)"
  by (cases v) auto

lemma finite_row_map: "\<forall>v \<in> set r. isFinite v \<Longrightarrow> r = map Num (map toReal r)"
  by (induction r) (auto simp: isFinite_Num)

lemma foldl_jmax_Num: "foldl jmax (Num a) (map Num xs) = Num (foldl max a xs)"
  by (induction xs arbitrary: a) (auto simp: jmax_def max_def)

lemma maxOfRow_finite: "xs \<noteq> [] \<Longrightarrow> \<exists>M. maxOfRow (map Num xs) = Num M"
  by (cases xs) (auto simp: maxOfRow_def jmax_def foldl_jmax_Num)

lemma foldl_jadd_reals: "foldl jadd (Num a) (map Num xs) = Num (a + sum_list xs)"
  by (induction xs arbitrary: a) (auto simp: add.assoc)

lemma sum_list_pos: "xs \<noteq> [] \<Longrightarrow> \<forall>x \<in> set xs. 0 < (x::real) \<Longrightarrow> 0 < sum_list xs"
  by (induction xs) (auto intro: add_pos_nonneg sum_list_nonneg less_imp_le)

lemma member_le_sum_list_real: "\<forall>x \<in> set xs. 0 \<le> (x::real) \<Longrightarrow> y \<in> set xs \<Longrightarrow> y \<le> sum_list xs"
  by (induction xs) (auto intro: sum_list_nonneg add_increasing add_increasing2)

lemma sum_list_div_const: "sum_list (map (\<lambda>x. f x / (c::real)) xs) = sum_list (map f xs) / c"
  by (induction xs) (auto simp: add_divide_distrib)

lemma softmaxRow_finite:
  assumes "xs \<noteq> []"
  shows "\<exists>M. softmaxRow (map Num xs) =
     map (\<lambda>x. Num (exp (x - M) / sum_list (map (\<lambda>y. exp (y - M)) xs))) xs"
proof -
  obtain M where M: "maxOfRow (map Num xs) = Num M" using maxOfRow_finite [OF assms] by blast
  have ev: "map (\<lambda>val. jexp (jsub val (Num M))) (map Num xs) = map Num (map (\<lambda>y. exp (y - M)) xs)"
    by (simp add: jsub_def)
  have pos: "0 < sum_list (map (\<lambda>y. exp (y - M)) xs)"
    using assms by (intro sum_list_pos) auto
  have "softmaxRow (map Num xs) =
     map (\<lambda>x. Num (exp (x - M) / sum_list (map (\<lambda>y. exp (y - M)) xs))) xs"
    unfolding softmaxRow_def M Let_def ev foldl_jadd_reals using pos by simp
  then show ?thesis by blast
qed

lemma softmaxRow_props:
  assumes "r \<noteq> []" "\<forall>v \<in> set r. isFinite v"
  shows "length (softmaxRow r) = length r \<and>
     (\<forall>v \<in> set (softmaxRow r). \<exists>x. v = Num x \<and> 0 \<le> x \<and> x \<le> 1) \<and>
     foldl jadd (Num 0) (softmaxRow r) = Num 1"
proof -
  define xs where "xs = map toReal r"
  have r: "r = map Num xs" unfolding xs_def using assms(2) by (rule finite_row_map)
  have ne: "xs \<noteq> []" using assms(1) xs_def by simp
  obtain M where sm: "softmaxRow (map Num xs) =
     map (\<lambda>x. Num (exp (x - M) / sum_list (map (\<lambda>y. exp (y - M)) xs))) xs"
    using softmaxRow_finite [OF ne] by blast
  define S where "S = sum_list (map (\<lambda>y. exp (y - M)) xs)"
  have pos: "0 < S" unfolding S_def using ne by (intro sum_list_pos) auto
  have le: "exp (x - M) \<le> S" if "x \<in> set xs" for x
    unfolding S_def using that by (intro member_le_sum_list_real) auto
  have 1: "length (softmaxRow r) = length r" by (simp add: softmaxRow_def Let_def)
  have 2: "\<forall>v \<in> set (softmaxRow r). \<exists>x. v = Num x \<and> 0 \<le> x \<and> x \<le> 1"
    unfolding r sm using pos le by (auto simp: S_def [symmetric] less_imp_le)
  have "map (\<lambda>x. Num (exp (x - M) / S)) xs = map Num (map (\<lambda>x. exp (x - M) / S) xs)" by simp
  moreover have "sum_list (map (\<lambda>x. exp (x - M) / S) xs) = 1"
    using pos by (simp add: sum_list_div_const S_def [symmetric])
  ultimately have 3: "foldl jadd (Num 0) (softmaxRow r) = Num 1"
    unfolding r sm S_def [symmetric] by (simp only: foldl_jadd_reals) simp
  show ?thesis using 1 2 3 by blast
qed

text \<open>
  Claim C9, as amended. For every well-formed input tensor with at least one column whose
  entries are all finite, the output of \<open>Softmax.forward\<close> has the shape of the input,
  every entry of it is a finite number between 0 and 1, and every row sums to 1.
\<close>

theorem softmax_forward_distribution:
  assumes "wellFormed t" "allFinite t" "0 < cols t"
  shows "wellFormed (activation_forward Softmax t) \<and>
         rows (activation_forward Softmax t) = rows t \<and>
         cols (activation_forward Softmax t) = cols t \<and>
         (\<forall>row \<in> set (data (activation_forward Softmax t)).
            (\<forall>v \<in> set row. \<exists>x. v = Num x \<and> 0 \<le> x \<and> x \<le> 1) \<and>
            foldl jadd (Num 0) row = Num 1)"
proof -
  have p: "length (softmaxRow r) = length r \<and>
     (\<forall>v \<in> set (softmaxRow r). \<exists>x. v = Num x \<and> 0 \<le> x \<and> x \<le> 1) \<and>
     foldl jadd (Num 0) (softmaxRow r) = Num 1" if "r \<in> set (data t)" for r
  proof (rule softmaxRow_props)
    show "r \<noteq> []" using assms that by (auto simp: wellFormed_def)
    show "\<forall>v \<in> set r. isFinite v" using assms that by (auto simp: allFinite_def)
  qed
  have "wellFormed (activation_forward Softmax t)"
    using assms(1) p by (auto simp: wellFormed_def)
  moreover have "\<forall>row \<in> set (data (activation_forward Softmax t)).
            (\<forall>v \<in> set row. \<exists>x. v = Num x \<and> 0 \<le> x \<and> x \<le> 1) \<and>
            foldl jadd (Num 0) row = Num 1"
    using p by auto
  ultimately show ?thesis by simp
qed

theorem softmax_forward_distribution_witness:
  "wellFormed \<lparr>data = [[Num 0, Num 0]], rows = 1, cols = 2\<rparr> \<and>
   allFinite \<lparr>data = [[Num 0, Num 0]], rows = 1, cols = 2\<rparr> \<and>
   0 < cols \<lparr>data = [[Num 0, Num 0]], rows = 1, cols = 2\<rparr> \<and>
   activation_forward Softmax \<lparr>data = [[Num 0, Num 0]], rows = 1, cols = 2\<rparr>
     = \<lparr>data = [[Num (1 / 2), Num (1 / 2)]], rows = 1, cols = 2\<rparr> \<and>
   foldl jadd (Num 0)
     (data (activation_forward Softmax \<lparr>data = [[Num 0, Num 0]], rows = 1, cols = 2\<rparr>) ! 0)
     = Num 1"
  using softmax_forward_distribution [of "\<lparr>data = [[Num 0, Num 0]], rows = 1, cols = 2\<rparr>"]
  by (simp add: wellFormed_def allFinite_def softmaxRow_def maxOfRow_def jmax_def jsub_def)

text \<open>
  The claim as stated, for every well-formed tensor with finite entries, fails on a tensor
  without columns: the output row is empty and sums to 0.
\<close>

theorem softmax_empty_row_counterexample:
  "wellFormed \<lparr>data = [[]], rows = 1, cols = 0\<rparr> \<and>
   allFinite \<lparr>data = [[]], rows = 1, cols = 0\<rparr> \<and>
   data (activation_forward Softmax \<lparr>data = [[]], rows = 1, cols = 0\<rparr>) = [[]] \<and>
   foldl jadd (Num 0) (data (activation_forward Softmax \<lparr>data = [[]], rows = 1, cols = 0\<rparr>) ! 0)
     = Num 0 \<and>
   foldl jadd (Num 0) (data (activation_forward Softmax \<lparr>data = [[]], rows = 1, cols = 0\<rparr>) ! 0)
     \<noteq> Num 1"
  by (simp add: wellFormed_def allFinite_def softmaxRow_def maxOfRow_def)


section \<open>Properties of the mean squared error\<close>

lemma allFinite_nth:
  assumes "wellFormed t" "allFinite t" "i < rows t" "j < cols t"
  shows "isFinite (data t ! i ! j)"
proof -
  have i: "i < length (data t)" using assms by (simp add: wellFormed_def)
  then have r: "data t ! i \<in> set (data t)" by (rule nth_mem)
  then have "j < length (data t ! i)" using assms by (simp add: wellFormed_def)
  then have "data t ! i ! j \<in> set (data t ! i)" by (rule nth_mem)
  with r assms(2) show ?thesis by (auto simp: allFinite_def)
qed

lemma allFinite_entry:
  "wellFormed t \<Longrightarrow> allFinite t \<Longrightarrow> i < rows t \<Longrightarrow> j < cols t \<Longrightarrow> data t ! i ! j = Num (entry t i j)"
  unfolding entry_def by (rule isFinite_Num) (rule allFinite_nth)

lemma at2_finite:
  "wellFormed t \<Longrightarrow> allFinite t \<Longrightarrow> i < rows t \<Longrightarrow> j < cols t \<Longrightarrow> at2 (data t) i j = Inr (Num (entry t i j))"
  by (simp add: wellFormed_at2 allFinite_entry)

lemma mse_inner:
  assumes "wellFormed p" "allFinite p" "wellFormed t" "allFinite t"
    "rows t = rows p" "cols t = cols p" "i < rows p" "n \<le> cols p"
  shows "forE n (Num s, c)
           (\<lambda>(sum, count) j.
              bindE (at2 (data p) i j) (\<lambda>pred.
              bindE (at2 (data t) i j) (\<lambda>target.
                if isFinite pred \<and> isFinite target
                then (let diff = jsub pred target
                      in Inr (jadd sum (jmul diff diff), count + 1))
                else Inr (sum, count))))
         = Inr (Num (s + (\<Sum>j<n. sqd p t i j)), c + n)"
  using assms(8)
proof (induction n)
  case 0
  then show ?case by simp
next
  case (Suc n)
  then have n: "n < cols p" by simp
  have a: "at2 (data p) i n = Inr (Num (entry p i n))" using assms n by (simp add: at2_finite)
  have b: "at2 (data t) i n = Inr (Num (entry t i n))" using assms n by (simp add: at2_finite)
  show ?case using Suc n a b by (simp add: forE_Suc jsub_def sqd_def Let_def add.assoc)
qed

lemma mse_outer:
  assumes "wellFormed p" "allFinite p" "wellFormed t" "allFinite t"
    "rows t = rows p" "cols t = cols p" "n \<le> rows p"
  shows "forE n (Num 0, 0::nat)
           (\<lambda>acc i. forE (cols p) acc
              (\<lambda>(sum, count) j.
                 bindE (at2 (data p) i j) (\<lambda>pred.
                 bindE (at2 (data t) i j) (\<lambda>target.
                   if isFinite pred \<and> isFinite target
                   then (let diff = jsub pred target
                         in Inr (jadd sum (jmul diff diff), count + 1))
                   else Inr (sum, count)))))
         = Inr (Num (\<Sum>i<n. \<Sum>j<cols p. sqd p t i j), n * cols p)"
  using assms(7)
proof (induction n)
  case 0
  then show ?case by simp
next
  case (Suc n)
  then have n: "n < rows p" by simp
  show ?case using Suc n mse_inner [OF assms(1-6) n order_refl]
    by (simp add: forE_Suc add.commute)
qed

lemma mse_compute_closed:
  assumes "wellFormed p" "allFinite p" "wellFormed t" "allFinite t"
    "rows t = rows p" "cols t = cols p" "0 < rows p * cols p"
  shows "mse_compute p t =
     Inr (Num ((\<Sum>i<rows p. \<Sum>j<cols p. sqd p t i j) / real (rows p * cols p)))"
  unfolding mse_compute_def using mse_outer [OF assms(1-6) order_refl] assms(7)
  by simp


lemma imapE_Inr:
  assumes "\<And>i. i < length xs \<Longrightarrow> f i (xs ! i) = Inr (g i (xs ! i))"
  shows "imapE f xs = Inr (imap g xs)"
  unfolding imapE_def imap_def
proof (rule mapE_Inr)
  fix x assume "x \<in> set (enumerate 0 xs)"
  then have "fst x < length xs" "snd x = xs ! fst x"
    by (auto simp: in_set_enumerate_eq)
  then show "(case x of (i, v) \<Rightarrow> f i v) = Inr (case x of (i, v) \<Rightarrow> g i v)"
    using assms [of "fst x"] by (cases x) simp
qed

lemma imap_nth: "i < length xs \<Longrightarrow> imap g xs ! i = g i (xs ! i)"
  by (simp add: imap_def nth_enumerate_eq)

lemma length_imap [simp]: "length (imap g xs) = length xs"
  by (simp add: imap_def)

lemma mse_gradient_closed:
  assumes "wellFormed p" "allFinite p" "wellFormed t" "allFinite t"
    "rows t = rows p" "cols t = cols p"
  shows "mse_gradient p t =
     Inr \<lparr>data = imap (\<lambda>i row. imap (\<lambda>j val. Num (gradEntry p t i j)) row) (data p),
          rows = rows p, cols = cols p\<rparr>"
proof -
  have len: "length (data p) = rows p" using assms by (simp add: wellFormed_def)
  have row: "imapE (\<lambda>j val. bindE (at2 (data t) i j) (\<lambda>target.
                   let grad = jdiv (jmul (Num 2) (jsub val target)) (Num (real (rows p * cols p)))
                   in Inr (if isFinite grad then grad else Num 0))) (data p ! i)
      = Inr (imap (\<lambda>j val. Num (gradEntry p t i j)) (data p ! i))" if i: "i < rows p" for i
  proof (rule imapE_Inr)
    fix j assume "j < length (data p ! i)"
    then have j: "j < cols p" using assms i by (simp add: wellFormed_row)
    have pos: "0 < rows p * cols p" using i j by simp
    have a: "data p ! i ! j = Num (entry p i j)" using assms i j by (simp add: allFinite_entry)
    have b: "at2 (data t) i j = Inr (Num (entry t i j))" using assms i j by (simp add: at2_finite)
    show "bindE (at2 (data t) i j) (\<lambda>target.
                   let grad = jdiv (jmul (Num 2) (jsub (data p ! i ! j) target)) (Num (real (rows p * cols p)))
                   in Inr (if isFinite grad then grad else Num 0))
       = Inr (Num (gradEntry p t i j))"
      using pos i j by (simp add: a b jsub_def gradEntry_def)
  qed
  have "imapE (\<lambda>i row. imapE (\<lambda>j val. bindE (at2 (data t) i j) (\<lambda>target.
                   let grad = jdiv (jmul (Num 2) (jsub val target)) (Num (real (rows p * cols p)))
                   in Inr (if isFinite grad then grad else Num 0))) row) (data p)
     = Inr (imap (\<lambda>i row. imap (\<lambda>j val. Num (gradEntry p t i j)) row) (data p))"
  proof (rule imapE_Inr)
    fix i assume "i < length (data p)"
    then have "i < rows p" using len by simp
    then show "imapE (\<lambda>j val. bindE (at2 (data t) i j) (\<lambda>target.
                   let grad = jdiv (jmul (Num 2) (jsub val target)) (Num (real (rows p * cols p)))
                   in Inr (if isFinite grad then grad else Num 0))) (data p ! i)
      = Inr (imap (\<lambda>j val. Num (gradEntry p t i j)) (data p ! i))" by (rule row)
  qed
  then show ?thesis by (simp add: mse_gradient_def Let_def)
qed

lemma set_update_cases: "r \<in> set (xs[i := y]) \<Longrightarrow> r = y \<and> i < length xs \<or> r \<in> set xs"
  by (induction xs arbitrary: i) (auto split: nat.splits)

lemma wellFormed_setEntry:
  assumes "wellFormed p"
  shows "wellFormed (setEntry p i j v)"
  unfolding wellFormed_def setEntry_def
proof (intro conjI ballI)
  show "length (data (p\<lparr>data := (data p)[i := (data p ! i)[j := v]]\<rparr>))
      = rows (p\<lparr>data := (data p)[i := (data p ! i)[j := v]]\<rparr>)"
    using assms by (simp add: wellFormed_def)
next
  fix r assume "r \<in> set (data (p\<lparr>data := (data p)[i := (data p ! i)[j := v]]\<rparr>))"
  then have "r \<in> set ((data p)[i := (data p ! i)[j := v]])" by simp
  then have "r = (data p ! i)[j := v] \<and> i < length (data p) \<or> r \<in> set (data p)"
    by (rule set_update_cases)
  then show "length r = cols (p\<lparr>data := (data p)[i := (data p ! i)[j := v]]\<rparr>)"
    using assms by (auto simp: wellFormed_def)
qed

lemma allFinite_setEntry:
  assumes "allFinite p" "isFinite v"
  shows "allFinite (setEntry p i j v)"
  unfolding allFinite_def setEntry_def
proof (intro ballI)
  fix r w assume r: "r \<in> set (data (p\<lparr>data := (data p)[i := (data p ! i)[j := v]]\<rparr>))" and w: "w \<in> set r"
  from r have "r \<in> set ((data p)[i := (data p ! i)[j := v]])" by simp
  then have "r \<in> set (data p) \<or> (i < length (data p) \<and> r = (data p ! i)[j := v])"
    using set_update_cases [of r "data p" i "(data p ! i)[j := v]"] by blast
  then show "isFinite w"
  proof
    assume "r \<in> set (data p)" then show ?thesis using assms w by (auto simp: allFinite_def)
  next
    assume h: "i < length (data p) \<and> r = (data p ! i)[j := v]"
    then have "w \<in> set ((data p ! i)[j := v])" using w by simp
    then have "w = v \<or> w \<in> set (data p ! i)"
      using set_update_cases [of w "data p ! i" j v] by blast
    moreover have "data p ! i \<in> set (data p)" using h by simp
    ultimately show ?thesis using assms by (auto simp: allFinite_def)
  qed
qed

lemma entry_setEntry:
  assumes "wellFormed p" "i < rows p" "j < cols p" "i0 < rows p" "j0 < cols p"
  shows "entry (setEntry p i0 j0 (Num x)) i j = (if i = i0 \<and> j = j0 then x else entry p i j)"
  using assms by (auto simp: entry_def setEntry_def wellFormed_def nth_list_update)

lemma sum_sqd_setEntry:
  assumes "wellFormed p" "i0 < rows p" "j0 < cols p"
  shows "(\<Sum>i<rows p. \<Sum>j<cols p. sqd (setEntry p i0 j0 (Num x)) t i j)
       = (\<Sum>i<rows p. \<Sum>j<cols p. sqd p t i j)
         + ((x - entry t i0 j0) * (x - entry t i0 j0) - sqd p t i0 j0)"
proof -
  let ?D = "(x - entry t i0 j0) * (x - entry t i0 j0) - sqd p t i0 j0"
  have "(\<Sum>i<rows p. \<Sum>j<cols p. sqd (setEntry p i0 j0 (Num x)) t i j)
      = (\<Sum>i<rows p. \<Sum>j<cols p. sqd p t i j + (if i = i0 \<and> j = j0 then ?D else 0))"
    by (intro sum.cong refl) (use assms in \<open>auto simp: sqd_def entry_setEntry\<close>)
  also have "\<dots> = (\<Sum>i<rows p. \<Sum>j<cols p. sqd p t i j)
        + (\<Sum>i<rows p. \<Sum>j<cols p. (if i = i0 \<and> j = j0 then ?D else 0))"
    by (simp add: sum.distrib)
  also have "(\<Sum>i<rows p. \<Sum>j<cols p. (if i = i0 \<and> j = j0 then ?D else 0))
       = (\<Sum>i<rows p. if i = i0 then ?D else 0)"
    by (intro sum.cong refl) (use assms in \<open>auto simp: sum.delta\<close>)
  also have "\<dots> = ?D" using assms by (simp add: sum.delta)
  finally show ?thesis .
qed

lemma mse_derivative:
  fixes S T P N :: real
  assumes "N \<noteq> 0"
  shows "((\<lambda>x. (S + ((x - T) * (x - T) - (P - T) * (P - T))) / N) has_real_derivative
            2 * (P - T) / N) (at P)"
  by (rule derivative_eq_intros refl | use assms in \<open>simp add: field_simps\<close>)+


text \<open>
  Claim C5. For well-formed tensors \<open>pred\<close> and \<open>target\<close> of the same shape whose entries
  are all finite, \<open>MSE.compute\<close> is the mean of the squared differences over all
  \<open>rows * cols\<close> entries, \<open>MSE.gradient\<close> returns a tensor whose entry at \<open>(i, j)\<close> is
  \<open>2 * (pred[i][j] - target[i][j]) / (rows * cols)\<close>, and that number is the derivative,
  at \<open>pred[i][j]\<close>, of \<open>MSE.compute\<close> as a function \<open>F\<close> of the entry \<open>(i, j)\<close> of
  \<open>pred\<close>, the other entries being fixed.
\<close>

theorem mse_gradient_is_derivative:
  assumes "wellFormed pred" "wellFormed target"
    "rows target = rows pred" "cols target = cols pred"
    "allFinite pred" "allFinite target" "i < rows pred" "j < cols pred"
  shows "\<exists>G F.
     mse_gradient pred target = Inr G \<and>
     data G ! i ! j
       = Num (2 * (entry pred i j - entry target i j) / real (rows pred * cols pred)) \<and>
     mse_compute pred target
       = Inr (Num ((\<Sum>a<rows pred. \<Sum>b<cols pred.
                      (entry pred a b - entry target a b) * (entry pred a b - entry target a b))
                   / real (rows pred * cols pred))) \<and>
     (\<forall>x. mse_compute (setEntry pred i j (Num x)) target = Inr (Num (F x))) \<and>
     (F has_real_derivative
        2 * (entry pred i j - entry target i j) / real (rows pred * cols pred))
       (at (entry pred i j))"
proof -
  let ?N = "real (rows pred * cols pred)"
  let ?S = "\<Sum>a<rows pred. \<Sum>b<cols pred. sqd pred target a b"
  let ?G = "\<lparr>data = imap (\<lambda>i row. imap (\<lambda>j val. Num (gradEntry pred target i j)) row) (data pred),
          rows = rows pred, cols = cols pred\<rparr>"
  let ?F = "\<lambda>x. (?S + ((x - entry target i j) * (x - entry target i j)
                     - (entry pred i j - entry target i j) * (entry pred i j - entry target i j))) / ?N"
  have pos: "0 < rows pred * cols pred" using assms(7,8) by simp
  then have N0: "?N \<noteq> 0" by simp
  have len: "i < length (data pred)" "j < length (data pred ! i)"
    using assms by (simp_all add: wellFormed_def)
  have g: "mse_gradient pred target = Inr ?G"
    using assms by (intro mse_gradient_closed) auto
  have ge: "data ?G ! i ! j = Num (2 * (entry pred i j - entry target i j) / ?N)"
    using len by (simp add: imap_nth gradEntry_def)
  have c: "mse_compute pred target = Inr (Num (?S / ?N))"
    using assms pos by (intro mse_compute_closed) auto
  have cx: "mse_compute (setEntry pred i j (Num x)) target = Inr (Num (?F x))" for x
  proof -
    let ?p = "setEntry pred i j (Num x)"
    have shape: "rows ?p = rows pred" "cols ?p = cols pred" by (simp_all add: setEntry_def)
    have "mse_compute ?p target =
        Inr (Num ((\<Sum>a<rows ?p. \<Sum>b<cols ?p. sqd ?p target a b) / real (rows ?p * cols ?p)))"
    proof (rule mse_compute_closed)
      show "wellFormed ?p" using assms(1) by (rule wellFormed_setEntry)
      show "allFinite ?p" using assms(5) by (rule allFinite_setEntry) simp
    qed (use assms pos shape in auto)
    then show ?thesis
      unfolding shape sum_sqd_setEntry [OF assms(1,7,8)] by (simp add: sqd_def)
  qed
  have d: "(?F has_real_derivative 2 * (entry pred i j - entry target i j) / ?N) (at (entry pred i j))"
    using N0 by (rule mse_derivative)
  show ?thesis
    apply (rule exI [of _ ?G], rule exI [of _ ?F])
    using g ge c cx d by (simp add: sqd_def)
qed


theorem mse_gradient_is_derivative_witness:
  "wellFormed \<lparr>data = [[Num 1, Num 3]], rows = 1, cols = 2\<rparr> \<and>
   wellFormed \<lparr>data = [[Num 0, Num 1]], rows = 1, cols = 2\<rparr> \<and>
   allFinite \<lparr>data = [[Num 1, Num 3]], rows = 1, cols = 2\<rparr> \<and>
   allFinite \<lparr>data = [[Num 0, Num 1]], rows = 1, cols = 2\<rparr> \<and>
   (\<exists>G F. mse_gradient \<lparr>data = [[Num 1, Num 3]], rows = 1, cols = 2\<rparr>
                        \<lparr>data = [[Num 0, Num 1]], rows = 1, cols = 2\<rparr> = Inr G \<and>
      data G ! 0 ! 1 = Num 2 \<and>
      mse_compute \<lparr>data = [[Num 1, Num 3]], rows = 1, cols = 2\<rparr>
                  \<lparr>data = [[Num 0, Num 1]], rows = 1, cols = 2\<rparr> = Inr (Num (5 / 2)) \<and>
      (\<forall>x. mse_compute (setEntry \<lparr>data = [[Num 1, Num 3]], rows = 1, cols = 2\<rparr> 0 1 (Num x))
                  \<lparr>data = [[Num 0, Num 1]], rows = 1, cols = 2\<rparr> = Inr (Num (F x))) \<and>
      (F has_real_derivative 2) (at 3))"
  using mse_gradient_is_derivative
    [of "\<lparr>data = [[Num 1, Num 3]], rows = 1, cols = 2\<rparr>"
        "\<lparr>data = [[Num 0, Num 1]], rows = 1, cols = 2\<rparr>" 0 1]
  by (simp add: wellFormed_def allFinite_def entry_def lessThan_Suc numeral_2_eq_2)


section \<open>Properties of the layer update\<close>

lemma mapE_Inr_D:
  "mapE f xs = Inr ys \<Longrightarrow> length ys = length xs \<and> (\<forall>i<length xs. f (xs ! i) = Inr (ys ! i))"
proof (induction xs arbitrary: ys)
  case Nil
  then show ?case by simp
next
  case (Cons x xs)
  from Cons.prems obtain y ys' where y: "f x = Inr y" and ys': "mapE f xs = Inr ys'" and e: "ys = y # ys'"
    by (auto simp: bindE_def split: sum.splits)
  from Cons.IH [OF ys'] have ih: "length ys' = length xs" "\<forall>i<length xs. f (xs ! i) = Inr (ys' ! i)"
    by simp_all
  show ?case using y e ih by (auto simp: nth_Cons split: nat.splits)
qed

lemma imapE_Inr_D:
  assumes "imapE f xs = Inr ys"
  shows "length ys = length xs \<and> (\<forall>i<length xs. f i (xs ! i) = Inr (ys ! i))"
proof -
  from assms have m: "mapE (\<lambda>(i, v). f i v) (enumerate 0 xs) = Inr ys" by (simp add: imapE_def)
  from mapE_Inr_D [OF m] show ?thesis by (auto simp: nth_enumerate_eq)
qed

lemma at2_Inr_D: "at2 d i j = Inr y \<Longrightarrow> i < length d \<and> y = numAt (d ! i) j"
  by (auto simp: at2_def arrayAt_def split: if_splits)

lemma zipTensor_Inr_D:
  assumes "zipTensor f a b = Inr r"
  shows "rows r = rows a \<and> cols r = cols a \<and> length (data r) = length (data a) \<and>
     (\<forall>i<length (data a). length (data r ! i) = length (data a ! i) \<and>
        (\<forall>j<length (data a ! i). data r ! i ! j = f (data a ! i ! j) (numAt (data b ! i) j)))"
proof -
  from assms obtain d where
    d: "imapE (\<lambda>i row. imapE (\<lambda>j val. bindE (at2 (data b) i j) (\<lambda>y. Inr (f val y))) row) (data a) = Inr d"
    and r: "r = \<lparr>data = d, rows = rows a, cols = cols a\<rparr>"
    by (auto simp: zipTensor_def bindE_def split: sum.splits)
  from imapE_Inr_D [OF d] have len: "length d = length (data a)"
    and rowi: "\<forall>i<length (data a).
       imapE (\<lambda>j val. bindE (at2 (data b) i j) (\<lambda>y. Inr (f val y))) (data a ! i) = Inr (d ! i)"
    by simp_all
  have "length (d ! i) = length (data a ! i) \<and>
        (\<forall>j<length (data a ! i). d ! i ! j = f (data a ! i ! j) (numAt (data b ! i) j))"
    if i: "i < length (data a)" for i
  proof -
    from rowi i have "imapE (\<lambda>j val. bindE (at2 (data b) i j) (\<lambda>y. Inr (f val y))) (data a ! i) = Inr (d ! i)"
      by simp
    from imapE_Inr_D [OF this] have l: "length (d ! i) = length (data a ! i)"
      and e: "\<forall>j<length (data a ! i). bindE (at2 (data b) i j) (\<lambda>y. Inr (f (data a ! i ! j) y)) = Inr (d ! i ! j)"
      by simp_all
    have "d ! i ! j = f (data a ! i ! j) (numAt (data b ! i) j)" if "j < length (data a ! i)" for j
    proof -
      from e that have "bindE (at2 (data b) i j) (\<lambda>y. Inr (f (data a ! i ! j) y)) = Inr (d ! i ! j)" by simp
      then obtain y where "at2 (data b) i j = Inr y" "d ! i ! j = f (data a ! i ! j) y"
        by (auto simp: bindE_def split: sum.splits)
      then show ?thesis using at2_Inr_D by blast
    qed
    with l show ?thesis by simp
  qed
  with len r show ?thesis by simp
qed



lemma clipNum_NaN: "isNaN g \<Longrightarrow> clipNum clipValue g = NaN"
  by (cases g) (auto simp: clipNum_def clipValue_def jmin_def jmax_def)


lemma jmul_Undefined [simp]: "jmul a Undefined = NaN" "jmul Undefined a = NaN"
  by (cases a; simp)+

lemma jmul_NaN [simp]: "jmul a NaN = NaN" "jmul NaN a = NaN"
  by (cases a; simp)+

lemma jadd_NaN [simp]: "jadd a NaN = NaN" "jadd NaN a = NaN" "jadd a Undefined = NaN" "jadd Undefined a = NaN"
  by (cases a; simp)+

lemma jsub_NaN [simp]: "jsub a NaN = NaN" "jsub a Undefined = NaN"
  by (simp_all add: jsub_def)

lemma clip_Undefined [simp]: "clipNum c Undefined = NaN"
  by (simp add: clipNum_def jmin_def jmax_def)













section \<open>Properties of Adam\<close>

lemma adam_update_t: "adam_t (fst (adam_update a w g lr)) = adam_t a + 1"
  by (simp add: adam_update_def Let_def split: sum.splits option.splits)

lemma adam_updateBias_t: "adam_t (fst (adam_updateBias a bs g lr)) = adam_t a + 1"
  by (simp add: adam_updateBias_def Let_def split: sum.splits option.splits)


lemma adam_updateBias_result:
  assumes "adam_updateBias a bs g lr = (a', Inr out)"
  shows "\<exists>mNew vNew. biasM a' (length bs) = Some mNew \<and> biasV a' (length bs) = Some vNew \<and>
     length out = length bs \<and>
     (\<forall>i<length bs. out ! i =
        jsub (bs ! i)
          (jdiv (jmul lr (jdiv (numAt mNew i) (corr1 (adam_t a + 1))))
                (jadd (jsqrt (jdiv (numAt vNew i) (corr2 (adam_t a + 1)))) epsilon)))"
  using assms
  apply (simp add: adam_updateBias_def Let_def getBiasKey_def split: option.splits if_splits)
  apply (auto simp: imap_nth numAt_def corr1_def corr2_def)
  done


lemma adam_update_result:
  assumes "adam_update a w g lr = (a', Inr out)"
  shows "\<exists>mNew vNew. adam_m a' (rows w, cols w) = Some mNew \<and> adam_v a' (rows w, cols w) = Some vNew \<and>
     length (data out) = length (data w) \<and>
     (\<forall>i<length (data w). length (data out ! i) = length (data w ! i) \<and>
        (\<forall>j<length (data w ! i).
           i < length (data mNew) \<and>
           (j < length (data mNew ! i) \<longrightarrow>
            data out ! i ! j =
              jsub (data w ! i ! j)
                (jdiv (jmul (jmul (data mNew ! i ! j) (jdiv (Num 1) (corr1 (adam_t a + 1)))) lr)
                      (jadd (numAt (map (\<lambda>x. jsqrt (jmul x (jdiv (Num 1) (corr2 (adam_t a + 1)))))
                                        (data vNew ! i)) j) epsilon)))))"
proof -
  let ?key = "(rows w, cols w)"
  from assms obtain mNew vNew U where
    m: "adam_m a' ?key = Some mNew" and v: "adam_v a' ?key = Some vNew" and
    u: "elementwiseDivide
          (multiplyScalar (multiplyScalar mNew (jdiv (Num 1) (jsub (Num 1) (jpow beta1 (adam_t a + 1))))) lr)
          (sqrt_t (multiplyScalar vNew (jdiv (Num 1) (jsub (Num 1) (jpow beta2 (adam_t a + 1)))))) epsilon
        = Inr U" and
    o: "subtract w U = Inr out"
    by (auto simp: adam_update_def Let_def getKey_def bindE_def split: sum.splits option.splits if_splits)
  let ?A = "multiplyScalar (multiplyScalar mNew (jdiv (Num 1) (jsub (Num 1) (jpow beta1 (adam_t a + 1))))) lr"
  let ?B = "sqrt_t (multiplyScalar vNew (jdiv (Num 1) (jsub (Num 1) (jpow beta2 (adam_t a + 1)))))"
  note DU = zipTensor_Inr_D [OF u [unfolded elementwiseDivide_def]]
  note DO = zipTensor_Inr_D [OF o [unfolded subtract_def]]
  have lenA: "length (data ?A) = length (data mNew)"
    by (simp add: multiplyScalar_def mapTensor_def)
  have inU: "i < length (data U)" if i: "i < length (data w)" and j: "j < length (data w ! i)" for i j
  proof -
    from o obtain d where
      "imapE (\<lambda>i row. imapE (\<lambda>j val. bindE (at2 (data U) i j) (\<lambda>y. Inr (jsub val y))) row) (data w) = Inr d"
      by (auto simp: subtract_def zipTensor_def bindE_def split: sum.splits)
    from imapE_Inr_D [OF this] i
    have "imapE (\<lambda>j val. bindE (at2 (data U) i j) (\<lambda>y. Inr (jsub val y))) (data w ! i) = Inr (d ! i)"
      by simp
    from imapE_Inr_D [OF this] j
    have "bindE (at2 (data U) i j) (\<lambda>y. Inr (jsub (data w ! i ! j) y)) = Inr (d ! i ! j)" by simp
    then obtain y where "at2 (data U) i j = Inr y" by (auto simp: bindE_def split: sum.splits)
    from at2_Inr_D [OF this] show ?thesis by simp
  qed
  have ent: "data out ! i ! j =
              jsub (data w ! i ! j)
                (jdiv (jmul (jmul (data mNew ! i ! j) (jdiv (Num 1) (corr1 (adam_t a + 1)))) lr)
                      (jadd (numAt (map (\<lambda>x. jsqrt (jmul x (jdiv (Num 1) (corr2 (adam_t a + 1)))))
                                        (data vNew ! i)) j) epsilon))"
    if i: "i < length (data w)" and j: "j < length (data w ! i)" and jm: "j < length (data mNew ! i)" for i j
  proof -
    have iU: "i < length (data U)" using inU [OF i j] .
    then have iA: "i < length (data ?A)" using DU by simp
    then have im: "i < length (data mNew)" using lenA by simp
    have jA: "j < length (data ?A ! i)" using im jm by (simp add: multiplyScalar_def mapTensor_def)
    have jU: "j < length (data U ! i)" using DU iA jA by simp
    have 1: "data out ! i ! j = jsub (data w ! i ! j) (data U ! i ! j)"
      using DO i j jU by (simp add: numAt_def)
    have 2: "data U ! i ! j = jdiv (data ?A ! i ! j) (jadd (numAt (data ?B ! i) j) epsilon)"
      using DU iA jA by simp
    have 3: "data ?A ! i ! j = jmul (jmul (data mNew ! i ! j) (jdiv (Num 1) (corr1 (adam_t a + 1)))) lr"
      using im jm by (simp add: multiplyScalar_def mapTensor_def corr1_def)
    have iv: "i < length (data vNew) \<or> \<not> i < length (data vNew)" by simp
    have 4: "numAt (data ?B ! i) j
        = numAt (map (\<lambda>x. jsqrt (jmul x (jdiv (Num 1) (corr2 (adam_t a + 1))))) (data vNew ! i)) j"
    proof -
      from u obtain d where
        "imapE (\<lambda>i row. imapE (\<lambda>j val. bindE (at2 (data ?B) i j) (\<lambda>y. Inr (jdiv val (jadd y epsilon)))) row) (data ?A) = Inr d"
        by (auto simp: elementwiseDivide_def zipTensor_def bindE_def split: sum.splits)
      from imapE_Inr_D [OF this] iA
      have "imapE (\<lambda>j val. bindE (at2 (data ?B) i j) (\<lambda>y. Inr (jdiv val (jadd y epsilon)))) (data ?A ! i) = Inr (d ! i)"
        by simp
      from imapE_Inr_D [OF this] jA
      have "bindE (at2 (data ?B) i j) (\<lambda>y. Inr (jdiv (data ?A ! i ! j) (jadd y epsilon))) = Inr (d ! i ! j)" by simp
      then obtain y where "at2 (data ?B) i j = Inr y" by (auto simp: bindE_def split: sum.splits)
      from at2_Inr_D [OF this] have "i < length (data ?B)" by simp
      then have "i < length (data vNew)" by (simp add: sqrt_t_def multiplyScalar_def mapTensor_def)
      then show ?thesis by (simp add: sqrt_t_def multiplyScalar_def mapTensor_def corr2_def comp_def)
    qed
    show ?thesis unfolding 1 2 3 4 ..
  qed
  have im: "i < length (data mNew)" if i: "i < length (data w)" and j: "j < length (data w ! i)" for i j
  proof -
    have "i < length (data U)" using inU [OF i j] .
    then show ?thesis using DU lenA by simp
  qed
  show ?thesis
    apply (rule exI [of _ mNew], rule exI [of _ vNew])
    using m v DO ent im by simp
qed


lemma sqrt_plus_eps_nonzero: "0 \<le> x \<Longrightarrow> sqrt x + 1 / 10 ^ 8 \<noteq> 0"
proof -
  assume "0 \<le> x"
  then have "0 \<le> sqrt x" by simp
  then have "0 < sqrt x + 1 / 10 ^ 8" by (simp add: add_nonneg_pos)
  then show ?thesis by simp
qed

lemmas adam_eval = adam_update_def adam_updateBias_def adam_reset_def getKey_def getBiasKey_def
  zerosLike_def mapTensor_def multiplyScalar_def add_t_def subtract_def elementwiseMultiply_def
  elementwiseDivide_def sqrt_t_def zipTensor_def imapE_def imap_def at2_def arrayAt_def numAt_def
  beta1_def beta2_def epsilon_def jsub_def Let_def

lemma adam_first_update:
  fixes w g r :: real
  shows "snd (adam_update (adam_reset a) \<lparr>data = [[Num w]], rows = 1, cols = 1\<rparr>
                \<lparr>data = [[Num g]], rows = 1, cols = 1\<rparr> (Num r))
     = Inr \<lparr>data = [[Num (w - (g * (1 - 9 / 10)) * (1 / (1 - (9 / 10) ^ 1)) * r
                              / (sqrt ((g * g * (1 - 999 / 1000)) * (1 / (1 - (999 / 1000) ^ 1)))
                                 + 1 / 10 ^ 8))]],
            rows = 1, cols = 1\<rparr>"
proof -
  have nz: "sqrt ((g * g * (1 - 999 / 1000)) * (1 / (1 - (999 / 1000) ^ 1))) + 1 / 10 ^ 8 \<noteq> 0"
    by (rule sqrt_plus_eps_nonzero) simp
  show ?thesis using nz by (simp add: adam_eval)
qed


lemma adam_then_bias_update:
  fixes w g r b h :: real
  shows "snd (adam_updateBias
                (fst (adam_update (adam_reset a) \<lparr>data = [[Num w]], rows = 1, cols = 1\<rparr>
                        \<lparr>data = [[Num g]], rows = 1, cols = 1\<rparr> (Num r)))
                [Num b] [Num h] (Num r))
     = Inr [Num (b - r * ((9 / 10 * 0 + (1 - 9 / 10) * h) / (1 - (9 / 10) ^ 2))
                      / (sqrt ((999 / 1000 * 0 + (1 - 999 / 1000) * h * h) / (1 - (999 / 1000) ^ 2))
                         + 1 / 10 ^ 8))]"
proof -
  have "0 \<le> (999 / 1000 * 0 + (1 - 999 / 1000) * h * h) / (1 - (999 / 1000) ^ 2)"
    by (simp add: power2_eq_square)
  then have nz: "sqrt ((999 / 1000 * 0 + (1 - 999 / 1000) * h * h) / (1 - (999 / 1000) ^ 2)) + 1 / 10 ^ 8 \<noteq> 0"
    by (rule sqrt_plus_eps_nonzero)
  have nz1: "sqrt ((g * g * (1 - 999 / 1000)) * (1 / (1 - (999 / 1000) ^ 1))) + 1 / 10 ^ 8 \<noteq> 0"
    by (rule sqrt_plus_eps_nonzero) simp
  show ?thesis using nz nz1 by (simp add: adam_eval power2_eq_square)
qed

text \<open>
  Claim C3. Every call of \<open>Adam.update\<close> and every call of \<open>Adam.updateBias\<close> increments
  the one step counter \<open>t\<close> by exactly one, whether or not the call throws. When a call
  returns, each entry of its result is the old value minus the learning rate times the
  corrected first moment over the root of the corrected second moment plus \<open>\<epsilon>\<close>, both
  corrections being \<open>1 - \<beta>1^t\<close> and \<open>1 - \<beta>2^t\<close> at the incremented counter. Hence, on a
  fresh optimizer, a weight update runs at \<open>t = 1\<close> and the bias update after it at
  \<open>t = 2\<close>; the last two conjuncts give both results for one weight and one bias entry.
\<close>

theorem adam_shared_step_counter:
  fixes w0 g0 r0 b0 h0 :: real
  shows
  "adam_t (fst (adam_update a w g lr)) = adam_t a + 1 \<and>
   adam_t (fst (adam_updateBias a bs gb lr)) = adam_t a + 1 \<and>
   (\<forall>a' out. adam_update a w g lr = (a', Inr out) \<longrightarrow>
      (\<exists>mNew vNew. adam_m a' (rows w, cols w) = Some mNew \<and> adam_v a' (rows w, cols w) = Some vNew \<and>
         length (data out) = length (data w) \<and>
         (\<forall>i<length (data w). length (data out ! i) = length (data w ! i) \<and>
            (\<forall>j<length (data w ! i).
               i < length (data mNew) \<and>
               (j < length (data mNew ! i) \<longrightarrow>
                data out ! i ! j =
                  jsub (data w ! i ! j)
                    (jdiv (jmul (jmul (data mNew ! i ! j) (jdiv (Num 1) (corr1 (adam_t a + 1)))) lr)
                          (jadd (numAt (map (\<lambda>x. jsqrt (jmul x (jdiv (Num 1) (corr2 (adam_t a + 1)))))
                                            (data vNew ! i)) j) epsilon))))))) \<and>
   (\<forall>a' out. adam_updateBias a bs gb lr = (a', Inr out) \<longrightarrow>
      (\<exists>mNew vNew. biasM a' (length bs) = Some mNew \<and> biasV a' (length bs) = Some vNew \<and>
         length out = length bs \<and>
         (\<forall>i<length bs. out ! i =
            jsub (bs ! i)
              (jdiv (jmul lr (jdiv (numAt mNew i) (corr1 (adam_t a + 1))))
                    (jadd (jsqrt (jdiv (numAt vNew i) (corr2 (adam_t a + 1)))) epsilon))))) \<and>
   adam_t (fst (adam_update (adam_reset a) w g lr)) = 1 \<and>
   adam_t (fst (adam_updateBias (fst (adam_update (adam_reset a) w g lr)) bs gb lr)) = 2 \<and>
   snd (adam_update (adam_reset a) \<lparr>data = [[Num w0]], rows = 1, cols = 1\<rparr>
                \<lparr>data = [[Num g0]], rows = 1, cols = 1\<rparr> (Num r0))
     = Inr \<lparr>data = [[Num (w0 - (g0 * (1 - 9 / 10)) * (1 / (1 - (9 / 10) ^ 1)) * r0
                              / (sqrt ((g0 * g0 * (1 - 999 / 1000)) * (1 / (1 - (999 / 1000) ^ 1)))
                                 + 1 / 10 ^ 8))]],
            rows = 1, cols = 1\<rparr> \<and>
   snd (adam_updateBias
                (fst (adam_update (adam_reset a) \<lparr>data = [[Num w0]], rows = 1, cols = 1\<rparr>
                        \<lparr>data = [[Num g0]], rows = 1, cols = 1\<rparr> (Num r0)))
                [Num b0] [Num h0] (Num r0))
     = Inr [Num (b0 - r0 * ((9 / 10 * 0 + (1 - 9 / 10) * h0) / (1 - (9 / 10) ^ 2))
                      / (sqrt ((999 / 1000 * 0 + (1 - 999 / 1000) * h0 * h0) / (1 - (999 / 1000) ^ 2))
                         + 1 / 10 ^ 8))]"
proof -
  have t1: "adam_t (fst (adam_update (adam_reset a) w g lr)) = 1"
    by (simp add: adam_update_t adam_reset_def)
  have t2: "adam_t (fst (adam_updateBias (fst (adam_update (adam_reset a) w g lr)) bs gb lr)) = 2"
    by (simp add: adam_updateBias_t adam_update_t adam_reset_def)
  show ?thesis
    using adam_update_t [of a w g lr] adam_updateBias_t [of a bs gb lr]
      adam_update_result [of a w g lr] adam_updateBias_result [of a bs gb lr] t1 t2
      adam_first_update [of a w0 g0 r0] adam_then_bias_update [of a w0 g0 r0 b0 h0]
    by (intro conjI allI impI) assumption+
qed

theorem adam_shared_step_counter_witness:
  "adam_t (fst (adam_update
                  \<lparr>adam_m = Map.empty, adam_v = Map.empty, adam_t = 0,
                   biasM = Map.empty, biasV = Map.empty\<rparr>
                  \<lparr>data = [[Num 1]], rows = 1, cols = 1\<rparr>
                  \<lparr>data = [[Num 2]], rows = 1, cols = 1\<rparr> (Num (1 / 10)))) = 1 \<and>
   adam_t (fst (adam_updateBias
                  (fst (adam_update
                          (adam_reset \<lparr>adam_m = Map.empty, adam_v = Map.empty, adam_t = 0,
                                       biasM = Map.empty, biasV = Map.empty\<rparr>)
                          \<lparr>data = [[Num 1]], rows = 1, cols = 1\<rparr>
                          \<lparr>data = [[Num 2]], rows = 1, cols = 1\<rparr> (Num (1 / 10))))
                  [Num 0] [Num 1] (Num (1 / 10)))) = 2"
proof -
  note T = adam_shared_step_counter
    [of "\<lparr>adam_m = Map.empty, adam_v = Map.empty, adam_t = 0,
          biasM = Map.empty, biasV = Map.empty\<rparr>"
        "\<lparr>data = [[Num 1]], rows = 1, cols = 1\<rparr>" "\<lparr>data = [[Num 2]], rows = 1, cols = 1\<rparr>"
        "Num (1 / 10)" "[Num 0]" "[Num 1]" 0 0 0 0 0]
  from T [THEN conjunct1]
  have a: "adam_t (fst (adam_update
                  \<lparr>adam_m = Map.empty, adam_v = Map.empty, adam_t = 0,
                   biasM = Map.empty, biasV = Map.empty\<rparr>
                  \<lparr>data = [[Num 1]], rows = 1, cols = 1\<rparr>
                  \<lparr>data = [[Num 2]], rows = 1, cols = 1\<rparr> (Num (1 / 10)))) = 1"
    by simp
  note b = T [THEN conjunct2, THEN conjunct2, THEN conjunct2, THEN conjunct2, THEN conjunct2,
              THEN conjunct1]
  show ?thesis using a b by blast
qed


section \<open>Properties of the dependency order\<close>

lemma labelToExpr_lbl: "labelToExpr es = foldl (\<lambda>m e. m(lbl e \<mapsto> e)) Map.empty es"
  by (simp add: labelToExpr_def lbl_def)

lemma foldl_labelToExpr_other:
  "l \<notin> lbl ` set es \<Longrightarrow> foldl (\<lambda>m e. m(lbl e \<mapsto> e)) m0 es l = m0 l"
  by (induction es arbitrary: m0) auto

lemma foldl_labelToExpr_Some:
  "foldl (\<lambda>m e. m(lbl e \<mapsto> e)) m0 es l = Some e \<Longrightarrow> (e \<in> set es \<and> lbl e = l) \<or> m0 l = Some e"
proof (induction es arbitrary: m0)
  case Nil
  then show ?case by simp
next
  case (Cons x xs)
  from Cons.IH [of "m0(lbl x \<mapsto> x)"] Cons.prems
  have "(e \<in> set xs \<and> lbl e = l) \<or> (m0(lbl x \<mapsto> x)) l = Some e" by simp
  then show ?case by (auto split: if_splits)
qed

lemma labelToExpr_Some: "labelToExpr es l = Some e \<Longrightarrow> e \<in> set es \<and> lbl e = l"
  using foldl_labelToExpr_Some [of Map.empty es l e] by (simp add: labelToExpr_lbl)

lemma labelToExpr_distinct:
  assumes "distinct (map lbl es)" "e \<in> set es"
  shows "labelToExpr es (lbl e) = Some e"
proof -
  have "foldl (\<lambda>m e. m(lbl e \<mapsto> e)) m0 es (lbl e) = Some e" for m0
    using assms
  proof (induction es arbitrary: m0)
    case Nil
    then show ?case by simp
  next
    case (Cons x xs)
    show ?case
    proof (cases "e = x")
      case True
      then have "lbl x \<notin> lbl ` set xs" using Cons.prems by auto
      then have "foldl (\<lambda>m e. m(lbl e \<mapsto> e)) (m0(lbl x \<mapsto> x)) xs (lbl x) = (m0(lbl x \<mapsto> x)) (lbl x)"
        by (rule foldl_labelToExpr_other)
      then have "foldl (\<lambda>m e. m(lbl e \<mapsto> e)) (m0(lbl x \<mapsto> x)) xs (lbl x) = Some x"
        by (simp only: fun_upd_same)
      then show ?thesis using True by (simp only: foldl_Cons)
    next
      case False
      then show ?thesis using Cons by simp
    qed
  qed
  then show ?thesis by (simp add: labelToExpr_lbl)
qed

lemma dom_labelToExpr_lbl: "dom (labelToExpr es) = lbl ` set es"
  by (auto simp: dom_labelToExpr lbl_def)

lemma visit_sortInv:
  "sortInv es s \<Longrightarrow>
     sortInv es (visit es l vis s) \<and> fst s \<subseteq> fst (visit es l vis s) \<and>
     (\<exists>new. snd (visit es l vis s) = snd s @ new) \<and>
     (\<forall>x \<in> fst (visit es l vis s). x \<in> fst s \<or> x \<notin> vis) \<and>
     (l \<in> dom (labelToExpr es) \<and> l \<notin> vis \<longrightarrow> l \<in> fst (visit es l vis s))"
  and visitRefs_sortInv:
  "sortInv es s \<Longrightarrow>
     sortInv es (visitRefs es rs vis s) \<and> fst s \<subseteq> fst (visitRefs es rs vis s) \<and>
     (\<exists>new. snd (visitRefs es rs vis s) = snd s @ new) \<and>
     (\<forall>x \<in> fst (visitRefs es rs vis s). x \<in> fst s \<or> x \<notin> vis) \<and>
     (\<forall>r \<in> set rs. r \<in> dom (labelToExpr es) \<and> r \<notin> vis \<longrightarrow> r \<in> fst (visitRefs es rs vis s))"
proof (induction es l vis s and es rs vis s rule: visit_visitRefs.induct)
  case (1 es l vis V R)
  show ?case
  proof (cases "l \<in> V \<or> l \<in> vis \<or> labelToExpr es l = None")
    case True
    then show ?thesis using "1.prems" by (auto simp: domIff)
  next
    case False
    then obtain expr where e: "labelToExpr es l = Some expr" and nV: "l \<notin> V" and nvis: "l \<notin> vis"
      by auto
    obtain V' R' where s': "visitRefs es (refsOf expr) (insert l vis) (V, R) = (V', R')"
      by (cases "visitRefs es (refsOf expr) (insert l vis) (V, R)") auto
    from "1.IH" [OF nV nvis e "1.prems"] s'
    have inv': "sortInv es (V', R')" and sub: "V \<subseteq> V'" and pre: "\<exists>new. R' = R @ new"
      and fresh: "\<forall>x \<in> V'. x \<in> V \<or> x \<notin> insert l vis"
      by simp_all
    have res: "visit es l vis (V, R) = (insert l V', R' @ [expr])"
      using e nV nvis s' by simp
    have le: "lbl expr = l" using labelToExpr_Some [OF e] by simp
    have lV': "l \<notin> V'" using fresh nV by auto
    have "sortInv es (insert l V', R' @ [expr])"
      using inv' le e lV' by (auto simp: sortInv_def)
    moreover have "V \<subseteq> insert l V'" using sub by auto
    moreover have "\<exists>new. R' @ [expr] = R @ new" using pre by auto
    moreover have "\<forall>x \<in> insert l V'. x \<in> V \<or> x \<notin> vis" using fresh nvis by auto
    ultimately show ?thesis unfolding res by simp
  qed
next
  case (2 es vis s)
  then show ?case by simp
next
  case (3 es r rs vis s)
  let ?s1 = "visit es r vis s"
  from "3.IH"(1) [OF "3.prems"]
  have a: "sortInv es ?s1" "fst s \<subseteq> fst ?s1" "\<exists>new. snd ?s1 = snd s @ new"
    "\<forall>x \<in> fst ?s1. x \<in> fst s \<or> x \<notin> vis"
    "r \<in> dom (labelToExpr es) \<and> r \<notin> vis \<longrightarrow> r \<in> fst ?s1"
    by simp_all
  from "3.IH"(2) [OF a(1)]
  have b: "sortInv es (visitRefs es rs vis ?s1)" "fst ?s1 \<subseteq> fst (visitRefs es rs vis ?s1)"
    "\<exists>new. snd (visitRefs es rs vis ?s1) = snd ?s1 @ new"
    "\<forall>x \<in> fst (visitRefs es rs vis ?s1). x \<in> fst ?s1 \<or> x \<notin> vis"
    "\<forall>r \<in> set rs. r \<in> dom (labelToExpr es) \<and> r \<notin> vis \<longrightarrow> r \<in> fst (visitRefs es rs vis ?s1)"
    by simp_all
  have "\<exists>new. snd (visitRefs es rs vis ?s1) = snd s @ new" using a(3) b(3) by auto
  moreover have "\<forall>x \<in> fst (visitRefs es rs vis ?s1). x \<in> fst s \<or> x \<notin> vis" using a(4) b(4) by blast
  moreover have "\<forall>q \<in> set (r # rs). q \<in> dom (labelToExpr es) \<and> q \<notin> vis \<longrightarrow> q \<in> fst (visitRefs es rs vis ?s1)"
    using a(5) b(2) b(5) by auto
  ultimately show ?case using a(2) b(1) b(2) by auto
qed


lemma ordered_snoc:
  assumes "ordered es R"
    "\<forall>r \<in> set (refsOf e). r \<in> dom (labelToExpr es) \<longrightarrow> r \<in> lbl ` set R"
  shows "ordered es (R @ [e])"
  unfolding ordered_def
proof (intro allI impI ballI)
  fix i r
  assume i: "i < length (R @ [e])" and r: "r \<in> set (refsOf ((R @ [e]) ! i))"
    and d: "r \<in> dom (labelToExpr es)"
  show "r \<in> lbl ` set (take i (R @ [e]))"
  proof (cases "i < length R")
    case True
    then show ?thesis using assms(1) r d by (simp add: ordered_def nth_append)
  next
    case False
    then have "i = length R" using i by simp
    then show ?thesis using assms(2) r d by simp
  qed
qed

lemma visit_ordered:
  "acyclic (depEdges es) \<Longrightarrow> sortInv es s \<Longrightarrow> ordered es (snd s) \<Longrightarrow>
   (l \<in> dom (labelToExpr es) \<longrightarrow> (\<forall>v \<in> vis. (v, l) \<in> (depEdges es)\<^sup>+)) \<Longrightarrow>
   ordered es (snd (visit es l vis s))"
  and visitRefs_ordered:
  "acyclic (depEdges es) \<Longrightarrow> sortInv es s \<Longrightarrow> ordered es (snd s) \<Longrightarrow>
   (\<forall>r \<in> set rs. r \<in> dom (labelToExpr es) \<longrightarrow> (\<forall>v \<in> vis. (v, r) \<in> (depEdges es)\<^sup>+)) \<Longrightarrow>
   ordered es (snd (visitRefs es rs vis s))"
proof (induction es l vis s and es rs vis s rule: visit_visitRefs.induct)
  case (1 es l vis V R)
  show ?case
  proof (cases "l \<in> V \<or> l \<in> vis \<or> labelToExpr es l = None")
    case True
    then show ?thesis using "1.prems" by auto
  next
    case False
    then obtain expr where e: "labelToExpr es l = Some expr" and nV: "l \<notin> V" and nvis: "l \<notin> vis"
      by auto
    obtain V' R' where s': "visitRefs es (refsOf expr) (insert l vis) (V, R) = (V', R')"
      by (cases "visitRefs es (refsOf expr) (insert l vis) (V, R)") auto
    have res: "visit es l vis (V, R) = (insert l V', R' @ [expr])"
      using e nV nvis s' by simp
    have ldom: "l \<in> dom (labelToExpr es)" using e by auto
    have edge: "(l, r) \<in> depEdges es" if "r \<in> set (refsOf expr)" "r \<in> dom (labelToExpr es)" for r
      using that e by (auto simp: depEdges_def)
    have reach: "\<forall>r \<in> set (refsOf expr). r \<in> dom (labelToExpr es) \<longrightarrow>
        (\<forall>v \<in> insert l vis. (v, r) \<in> (depEdges es)\<^sup>+)"
    proof (intro ballI impI)
      fix r v assume r: "r \<in> set (refsOf expr)" "r \<in> dom (labelToExpr es)" and v: "v \<in> insert l vis"
      show "(v, r) \<in> (depEdges es)\<^sup>+"
      proof (cases "v = l")
        case True
        then show ?thesis using edge [OF r] by auto
      next
        case False
        then have "(v, l) \<in> (depEdges es)\<^sup>+" using v "1.prems"(4) ldom by auto
        then show ?thesis using edge [OF r] by (rule trancl_into_trancl)
      qed
    qed
    from "1.IH" [OF nV nvis e "1.prems"(1,2,3) reach] s'
    have ord': "ordered es R'" by simp
    from visitRefs_sortInv [OF "1.prems"(2), of "refsOf expr" "insert l vis"] s'
    have inv': "sortInv es (V', R')" and
      got: "\<forall>r \<in> set (refsOf expr). r \<in> dom (labelToExpr es) \<and> r \<notin> insert l vis \<longrightarrow> r \<in> V'"
      by simp_all
    have "\<forall>r \<in> set (refsOf expr). r \<in> dom (labelToExpr es) \<longrightarrow> r \<in> lbl ` set R'"
    proof (intro ballI impI)
      fix r assume r: "r \<in> set (refsOf expr)" "r \<in> dom (labelToExpr es)"
      have "r \<notin> insert l vis"
      proof
        assume "r \<in> insert l vis"
        then have "(r, r) \<in> (depEdges es)\<^sup>+" using reach r by blast
        then show False using "1.prems"(1) by (simp add: acyclic_def)
      qed
      then have "r \<in> V'" using got r by blast
      then show "r \<in> lbl ` set R'" using inv' by (simp add: sortInv_def)
    qed
    then have "ordered es (R' @ [expr])" using ord' by (intro ordered_snoc) auto
    then show ?thesis unfolding res by simp
  qed
next
  case (2 es vis s)
  then show ?case by simp
next
  case (3 es r rs vis s)
  let ?s1 = "visit es r vis s"
  have inv1: "sortInv es ?s1" using visit_sortInv [OF "3.prems"(2)] by blast
  have ord1: "ordered es (snd ?s1)"
    using "3.IH"(1) [OF "3.prems"(1,2,3)] "3.prems"(4) by simp
  have "ordered es (snd (visitRefs es rs vis ?s1))"
    using "3.IH"(2) [OF "3.prems"(1) inv1 ord1] "3.prems"(4) by simp
  then show ?case by simp
qed


lemma top_fold_sortInv:
  "sortInv es s \<Longrightarrow>
   sortInv es (foldl (\<lambda>s e. visit es (toLowerCase (label e)) {} s) s xs) \<and>
   fst s \<subseteq> fst (foldl (\<lambda>s e. visit es (toLowerCase (label e)) {} s) s xs) \<and>
   lbl ` set xs \<inter> dom (labelToExpr es) \<subseteq> fst (foldl (\<lambda>s e. visit es (toLowerCase (label e)) {} s) s xs)"
proof (induction xs arbitrary: s)
  case Nil
  then show ?case by simp
next
  case (Cons x xs)
  let ?s1 = "visit es (toLowerCase (label x)) {} s"
  from visit_sortInv [OF Cons.prems, of "toLowerCase (label x)" "{}"]
  have a: "sortInv es ?s1" "fst s \<subseteq> fst ?s1"
    "toLowerCase (label x) \<in> dom (labelToExpr es) \<longrightarrow> toLowerCase (label x) \<in> fst ?s1"
    by simp_all
  from Cons.IH [OF a(1)] a(2,3) show ?case by (auto simp: lbl_def)
qed

lemma top_fold_ordered:
  "acyclic (depEdges es) \<Longrightarrow> sortInv es s \<Longrightarrow> ordered es (snd s) \<Longrightarrow>
   ordered es (snd (foldl (\<lambda>s e. visit es (toLowerCase (label e)) {} s) s xs))"
proof (induction xs arbitrary: s)
  case Nil
  then show ?case by simp
next
  case (Cons x xs)
  let ?s1 = "visit es (toLowerCase (label x)) {} s"
  have a: "sortInv es ?s1" using visit_sortInv [OF Cons.prems(2)] by blast
  have b: "ordered es (snd ?s1)" using visit_ordered [OF Cons.prems] by simp
  from Cons.IH [OF Cons.prems(1) a b] show ?case by simp
qed

lemma sortInv_init: "sortInv es ({}, [])"
  by (simp add: sortInv_def)

lemma ordered_init: "ordered es []"
  by (simp add: ordered_def)

lemma topologicalSort_general:
  "distinct (map lbl (topologicalSort es)) \<and> lbl ` set (topologicalSort es) = lbl ` set es \<and>
   (\<forall>e \<in> set (topologicalSort es). labelToExpr es (lbl e) = Some e)"
proof -
  let ?s = "foldl (\<lambda>s e. visit es (toLowerCase (label e)) {} s) ({}, []) es"
  from top_fold_sortInv [OF sortInv_init, of es es]
  have inv: "sortInv es ?s" and all: "lbl ` set es \<inter> dom (labelToExpr es) \<subseteq> fst ?s" by simp_all
  have R: "topologicalSort es = snd ?s" by (simp add: topologicalSort_def)
  have 1: "lbl ` set es \<subseteq> lbl ` set (snd ?s)"
    using all inv by (simp add: dom_labelToExpr_lbl sortInv_def)
  have 2: "lbl ` set (snd ?s) \<subseteq> lbl ` set es"
  proof
    fix l assume "l \<in> lbl ` set (snd ?s)"
    then obtain e where "e \<in> set (snd ?s)" "l = lbl e" by auto
    then have "labelToExpr es l = Some e" using inv by (simp add: sortInv_def)
    then show "l \<in> lbl ` set es" using labelToExpr_Some by blast
  qed
  show ?thesis unfolding R using inv 1 2 by (auto simp: sortInv_def)
qed

lemma topologicalSort_perm:
  assumes "distinct (map lbl es)"
  shows "set (topologicalSort es) = set es \<and> distinct (topologicalSort es) \<and>
         length (topologicalSort es) = length es"
proof -
  note G = topologicalSort_general [of es]
  have sub: "set (topologicalSort es) \<subseteq> set es"
    using G labelToExpr_Some by blast
  have sup: "set es \<subseteq> set (topologicalSort es)"
  proof
    fix e assume e: "e \<in> set es"
    then have "lbl e \<in> lbl ` set (topologicalSort es)" using G by auto
    then obtain e' where e': "e' \<in> set (topologicalSort es)" "lbl e' = lbl e" by auto
    have "labelToExpr es (lbl e') = Some e'" using G e'(1) by blast
    then have 1: "labelToExpr es (lbl e) = Some e'" by (simp only: e'(2))
    have 2: "labelToExpr es (lbl e) = Some e" using assms e by (rule labelToExpr_distinct)
    have "e' = e" using 1 2 by (metis option.inject)
    then show "e \<in> set (topologicalSort es)" using e'(1) by blast
  qed
  have d: "distinct (topologicalSort es)" using G by (simp add: distinct_map)
  have des: "distinct es" using assms by (simp add: distinct_map)
  have "card (set (topologicalSort es)) = card (set es)" using sub sup by auto
  then have "length (topologicalSort es) = length es"
    using d des by (simp add: distinct_card)
  then show ?thesis using sub sup d by auto
qed

lemma takeWhile_neq_nth:
  "distinct xs \<Longrightarrow> i < length xs \<Longrightarrow> takeWhile (\<lambda>x. x \<noteq> xs ! i) xs = take i xs"
proof (induction xs arbitrary: i)
  case Nil
  then show ?case by simp
next
  case (Cons x xs)
  show ?case
  proof (cases i)
    case 0
    then show ?thesis by simp
  next
    case (Suc k)
    then have "x \<noteq> xs ! k" using Cons.prems by auto
    then show ?thesis using Suc Cons by simp
  qed
qed

lemma topologicalSort_order:
  assumes "distinct (map lbl es)" "acyclic (depEdges es)"
    "e \<in> set es" "e' \<in> set es" "lbl e' \<in> set (refsOf e)"
  shows "precedes e' e (topologicalSort es)"
proof -
  let ?R = "topologicalSort es"
  let ?s = "foldl (\<lambda>s e. visit es (toLowerCase (label e)) {} s) ({}, []) es"
  have ord: "ordered es ?R"
    using top_fold_ordered [OF assms(2) sortInv_init, of es] by (simp add: topologicalSort_def ordered_init)
  note P = topologicalSort_perm [OF assms(1)]
  note G = topologicalSort_general [of es]
  from P assms(3) have "e \<in> set ?R" by simp
  then obtain i where i: "i < length ?R" "?R ! i = e" by (auto simp: in_set_conv_nth)
  have "lbl e' \<in> dom (labelToExpr es)" using assms(4) by (auto simp: dom_labelToExpr_lbl)
  then have "lbl e' \<in> lbl ` set (take i ?R)" using ord i assms(5) by (auto simp: ordered_def)
  then obtain e'' where e'': "e'' \<in> set (take i ?R)" "lbl e'' = lbl e'" by auto
  then have "e'' \<in> set ?R" by (auto dest: in_set_takeD)
  then have "labelToExpr es (lbl e'') = Some e''" using G by blast
  then have 1: "labelToExpr es (lbl e') = Some e''" by (simp only: e''(2))
  have 2: "labelToExpr es (lbl e') = Some e'" using assms(1,4) by (rule labelToExpr_distinct)
  have "e'' = e'" using 1 2 by (metis option.inject)
  then have "e' \<in> set (take i ?R)" using e''(1) by blast
  moreover have "takeWhile (\<lambda>x. x \<noteq> e) ?R = take i ?R"
    using takeWhile_neq_nth [of ?R i] P i by simp
  moreover have "e \<in> set ?R" using P assms(3) by simp
  ultimately show ?thesis by (simp add: precedes_def)
qed

lemma visit_in_path: "l \<in> vis \<Longrightarrow> visit es l vis s = s"
  by (cases s) simp

lemma topologicalSort_example: "topologicalSort
   [\<lparr>expr_id = ''2'', label = ''y2'', expr_text = ''y1+1'', color = [], visible = True\<rparr>,
    \<lparr>expr_id = ''1'', label = ''y1'', expr_text = ''x^2'', color = [], visible = True\<rparr>]
  = [\<lparr>expr_id = ''1'', label = ''y1'', expr_text = ''x^2'', color = [], visible = True\<rparr>,
     \<lparr>expr_id = ''2'', label = ''y2'', expr_text = ''y1+1'', color = [], visible = True\<rparr>]"
  by (simp add: topologicalSort_def labelToExpr_def toLowerCase_def lowerChar_def refsOf_def isDigit_def)

lemma char_of_121: "char_of (121::nat) = CHR ''y''"
  by code_simp

lemma lower_Y: "lowerChar CHR ''Y'' = CHR ''y''"
  by (simp add: lowerChar_def char_of_121)

lemma topologicalSort_case_example: "topologicalSort
   [\<lparr>expr_id = ''1'', label = ''Y1'', expr_text = ''x'', color = [], visible = True\<rparr>,
    \<lparr>expr_id = ''2'', label = ''y1'', expr_text = ''2'', color = [], visible = True\<rparr>]
  = [\<lparr>expr_id = ''2'', label = ''y1'', expr_text = ''2'', color = [], visible = True\<rparr>]"
  by (simp add: topologicalSort_def labelToExpr_def toLowerCase_def lowerChar_def refsOf_def isDigit_def char_of_121)

lemma topologicalSort_cycle_example: "topologicalSort
   [\<lparr>expr_id = ''1'', label = ''y1'', expr_text = ''y2'', color = [], visible = True\<rparr>,
    \<lparr>expr_id = ''2'', label = ''y2'', expr_text = ''y1'', color = [], visible = True\<rparr>]
  = [\<lparr>expr_id = ''2'', label = ''y2'', expr_text = ''y1'', color = [], visible = True\<rparr>,
     \<lparr>expr_id = ''1'', label = ''y1'', expr_text = ''y2'', color = [], visible = True\<rparr>]"
  by (simp add: topologicalSort_def labelToExpr_def toLowerCase_def lowerChar_def refsOf_def isDigit_def)


text \<open>
  Claim C7, as amended. \<open>topologicalSort\<close> is a total function: it returns a list for
  every list of expressions, cyclic references included, and a label that is on the
  current visit path is skipped. The result holds exactly one expression for each
  lower-cased label of the input, and only expressions of the input. When the labels of
  the input are pairwise distinct ignoring case, the result holds every input expression
  exactly once; and when moreover the dependency graph is acyclic, an expression that
  another one refers to comes before it.
\<close>

theorem topologicalSort_total_order:
  "distinct (map lbl (topologicalSort es)) \<and>
   lbl ` set (topologicalSort es) = lbl ` set es \<and>
   set (topologicalSort es) \<subseteq> set es \<and>
   (\<forall>l vis s. l \<in> vis \<longrightarrow> visit es l vis s = s) \<and>
   (distinct (map lbl es) \<longrightarrow>
      set (topologicalSort es) = set es \<and> distinct (topologicalSort es) \<and>
      length (topologicalSort es) = length es \<and>
      (acyclic (depEdges es) \<longrightarrow>
         (\<forall>e \<in> set es. \<forall>e' \<in> set es.
            lbl e' \<in> set (refsOf e) \<longrightarrow> precedes e' e (topologicalSort es))))"
proof -
  note G = topologicalSort_general [of es]
  have sub: "set (topologicalSort es) \<subseteq> set es" using G labelToExpr_Some by blast
  have path: "\<forall>l vis s. l \<in> vis \<longrightarrow> visit es l vis s = s" using visit_in_path by blast
  have perm: "set (topologicalSort es) = set es \<and> distinct (topologicalSort es) \<and>
      length (topologicalSort es) = length es" if "distinct (map lbl es)"
    using that by (rule topologicalSort_perm)
  have ord: "\<forall>e \<in> set es. \<forall>e' \<in> set es.
            lbl e' \<in> set (refsOf e) \<longrightarrow> precedes e' e (topologicalSort es)"
    if "distinct (map lbl es)" "acyclic (depEdges es)"
    using that topologicalSort_order by blast
  show ?thesis using G sub path perm ord by blast
qed

theorem topologicalSort_total_order_witness:
  "distinct (map lbl [\<lparr>expr_id = ''2'', label = ''y2'', expr_text = ''y1+1'', color = [], visible = True\<rparr>, \<lparr>expr_id = ''1'', label = ''y1'', expr_text = ''x^2'', color = [], visible = True\<rparr>]) \<and>
   acyclic (depEdges [\<lparr>expr_id = ''2'', label = ''y2'', expr_text = ''y1+1'', color = [], visible = True\<rparr>, \<lparr>expr_id = ''1'', label = ''y1'', expr_text = ''x^2'', color = [], visible = True\<rparr>]) \<and>
   topologicalSort [\<lparr>expr_id = ''2'', label = ''y2'', expr_text = ''y1+1'', color = [], visible = True\<rparr>, \<lparr>expr_id = ''1'', label = ''y1'', expr_text = ''x^2'', color = [], visible = True\<rparr>] = [\<lparr>expr_id = ''1'', label = ''y1'', expr_text = ''x^2'', color = [], visible = True\<rparr>, \<lparr>expr_id = ''2'', label = ''y2'', expr_text = ''y1+1'', color = [], visible = True\<rparr>] \<and>
   precedes \<lparr>expr_id = ''1'', label = ''y1'', expr_text = ''x^2'', color = [], visible = True\<rparr> \<lparr>expr_id = ''2'', label = ''y2'', expr_text = ''y1+1'', color = [], visible = True\<rparr> (topologicalSort [\<lparr>expr_id = ''2'', label = ''y2'', expr_text = ''y1+1'', color = [], visible = True\<rparr>, \<lparr>expr_id = ''1'', label = ''y1'', expr_text = ''x^2'', color = [], visible = True\<rparr>])"
proof -
  let ?es = "[\<lparr>expr_id = ''2'', label = ''y2'', expr_text = ''y1+1'', color = [], visible = True\<rparr>, \<lparr>expr_id = ''1'', label = ''y1'', expr_text = ''x^2'', color = [], visible = True\<rparr>]"
  have d: "distinct (map lbl ?es)"
    by (simp add: lbl_def toLowerCase_def lowerChar_def)
  have "depEdges ?es \<subseteq> {(''y2'', ''y1'')}"
  proof
    fix p assume "p \<in> depEdges ?es"
    then obtain l r e where p: "p = (l, r)" and e: "labelToExpr ?es l = Some e"
      and r: "r \<in> set (refsOf e)"
      by (auto simp: depEdges_def)
    from labelToExpr_Some [OF e] have "e \<in> set ?es" "lbl e = l" by simp_all
    then show "p \<in> {(''y2'', ''y1'')}" using p r
      by (auto simp: lbl_def toLowerCase_def lowerChar_def refsOf_def isDigit_def)
  qed
  moreover have "acyclic {(''y2'', ''y1'')}"
  proof -
    have "acyclic ({} :: (string \<times> string) set)" by (simp add: acyclic_def)
    then show ?thesis by simp
  qed
  ultimately have a: "acyclic (depEdges ?es)" by (rule acyclic_subset [rotated])
  have r: "lbl \<lparr>expr_id = ''1'', label = ''y1'', expr_text = ''x^2'', color = [], visible = True\<rparr> \<in> set (refsOf \<lparr>expr_id = ''2'', label = ''y2'', expr_text = ''y1+1'', color = [], visible = True\<rparr>)"
    by (simp add: lbl_def toLowerCase_def lowerChar_def refsOf_def isDigit_def)
  from topologicalSort_total_order [of ?es] d a
  have "\<forall>e \<in> set ?es. \<forall>e' \<in> set ?es.
            lbl e' \<in> set (refsOf e) \<longrightarrow> precedes e' e (topologicalSort ?es)"
    by blast
  then have p: "precedes \<lparr>expr_id = ''1'', label = ''y1'', expr_text = ''x^2'', color = [], visible = True\<rparr> \<lparr>expr_id = ''2'', label = ''y2'', expr_text = ''y1+1'', color = [], visible = True\<rparr> (topologicalSort ?es)" using r by simp
  show ?thesis using d a p topologicalSort_example by simp
qed

text \<open>
  The claim as stated, for any expression list, fails when two labels differ only in
  case: both are stored under one key of the map, and only the later expression is
  returned.
\<close>

theorem topologicalSort_duplicate_counterexample:
  "distinct (map label [\<lparr>expr_id = ''1'', label = ''Y1'', expr_text = ''x'', color = [], visible = True\<rparr>, \<lparr>expr_id = ''2'', label = ''y1'', expr_text = ''2'', color = [], visible = True\<rparr>]) \<and>
   topologicalSort [\<lparr>expr_id = ''1'', label = ''Y1'', expr_text = ''x'', color = [], visible = True\<rparr>, \<lparr>expr_id = ''2'', label = ''y1'', expr_text = ''2'', color = [], visible = True\<rparr>] = [\<lparr>expr_id = ''2'', label = ''y1'', expr_text = ''2'', color = [], visible = True\<rparr>] \<and>
   \<lparr>expr_id = ''1'', label = ''Y1'', expr_text = ''x'', color = [], visible = True\<rparr> \<notin> set (topologicalSort [\<lparr>expr_id = ''1'', label = ''Y1'', expr_text = ''x'', color = [], visible = True\<rparr>, \<lparr>expr_id = ''2'', label = ''y1'', expr_text = ''2'', color = [], visible = True\<rparr>])"
  using topologicalSort_case_example by simp


section \<open>Properties of the debug engine\<close>

lemma getStepHistory_setData: "getStepHistory (setData e input target) = []"
  by (simp add: getStepHistory_def setData_def slice0_def)

lemma undo_at_start: "currentStepIndex e \<le> 0 \<Longrightarrow> undo e = (e, Inr False)"
  by (simp add: undo_def)

lemma layer_forward_fields:
  "layer_forward l input = (l', r) \<Longrightarrow>
     weights l' = weights l \<and> bias l' = bias l \<and> weightGrad l' = weightGrad l \<and> biasGrad l' = biasGrad l"
  by (auto simp: layer_forward_def Let_def split: sum.splits option.splits)

lemma forwardLayer_layers:
  "forwardLayer net i input = (net', r) \<Longrightarrow>
     length (layers net') = length (layers net) \<and> lossFunction net' = lossFunction net \<and>
     map weights (layers net') = map weights (layers net) \<and>
     map bias (layers net') = map bias (layers net)"
proof -
  assume a: "forwardLayer net i input = (net', r)"
  show ?thesis
  proof (cases "i < length (layers net)")
    case False
    then show ?thesis using a by (simp add: forwardLayer_def arrayAt_def)
  next
    case True
    obtain l' r' where lf: "layer_forward (layers net ! i) input = (l', r')"
      by (cases "layer_forward (layers net ! i) input") auto
    from layer_forward_fields [OF lf] have f: "weights l' = weights (layers net ! i)" "bias l' = bias (layers net ! i)"
      by simp_all
    have n: "net' = net\<lparr>layers := (layers net)[i := l']\<rparr>"
      using a True lf by (simp add: forwardLayer_def arrayAt_def)
    have "map weights ((layers net)[i := l']) = map weights (layers net)"
      using True f by (simp add: map_update list_update_same_conv)
    moreover have "map bias ((layers net)[i := l']) = map bias (layers net)"
      using True f by (simp add: map_update list_update_same_conv)
    ultimately show ?thesis using n by simp
  qed
qed

lemma stepForwardLayer_success:
  assumes "stepForwardLayer e i = (e', Inr s)"
  shows "currentStepIndex e' = currentStepIndex e + 1 \<and>
     stepHistory e' = slice0 (stepHistory e) (currentStepIndex e + 1) @ [s] \<and>
     lossGradient e' = lossGradient e \<and>
     length (layers (network e')) = length (layers (network e)) \<and>
     length (ns_weights (networkState s)) = length (layers (network e)) \<and>
     length (ns_biases (networkState s)) = length (layers (network e)) \<and>
     currentInput e' = currentInput e"
proof -
  from assms obtain inp where inp: "currentInput e = Some inp"
    by (auto simp: stepForwardLayer_def split: option.splits)
  let ?input = "if i = 0 then Some inp else activationAt (forwardActivations e) (i - 1)"
  obtain net' r where fl: "forwardLayer (network e) i ?input = (net', r)"
    by (cases "forwardLayer (network e) i ?input") auto
  note F = forwardLayer_layers [OF fl]
  from assms inp fl obtain out where r: "r = Inr out"
    by (cases r) (auto simp: stepForwardLayer_def Let_def)
  let ?e2 = "e\<lparr>network := net', forwardActivations := setActivation (forwardActivations e) i out\<rparr>"
  from assms inp fl r obtain layer where
    l: "arrayAt (layers net') i = Some layer" and
    e': "e' = pushSnapshot ?e2 s" and
    s: "networkState s = getCurrentState ?e2"
    by (auto simp: stepForwardLayer_def Let_def split: option.splits)
  show ?thesis using F by (simp add: e' s pushSnapshot_def Let_def getCurrentState_def getState_def)
qed


lemma first_step:
  assumes "stepForwardLayer (setData e input target) 0 = (e1, Inr s1)"
  shows "getStepHistory e1 = [s1] \<and> currentStepIndex e1 = 0 \<and> stepHistory e1 = [s1] \<and>
         undo e1 = (e1, Inr False)"
proof -
  note S = stepForwardLayer_success [OF assms]
  have i: "currentStepIndex e1 = 0" using S by (simp add: setData_def)
  have h: "stepHistory e1 = [s1]" using S by (simp add: setData_def slice0_def)
  have g: "getStepHistory e1 = [s1]" using i h by (simp add: getStepHistory_def slice0_def)
  show ?thesis using i h g undo_at_start [of e1] by simp
qed

lemma second_step_undo:
  assumes "stepForwardLayer (setData e input target) 0 = (e1, Inr s1)"
    "stepForwardLayer e1 1 = (e2, Inr s2)"
  shows "getStepHistory e2 = [s1, s2] \<and>
     (\<exists>e3. undo e2 = (e3, Inr True) \<and> getStepHistory e3 = [s1] \<and> undo e3 = (e3, Inr False))"
proof -
  note S1 = stepForwardLayer_success [OF assms(1)]
  note F = first_step [OF assms(1)]
  note S2 = stepForwardLayer_success [OF assms(2)]
  have i2: "currentStepIndex e2 = 1" using S2 F by simp
  have h2: "stepHistory e2 = [s1, s2]" using S2 F by (simp add: slice0_def)
  have g2: "getStepHistory e2 = [s1, s2]" using i2 h2 by (simp add: getStepHistory_def slice0_def)
  let ?e' = "e2\<lparr>currentStepIndex := 0\<rparr>"
  have len: "length (ns_weights (networkState s1)) = length (layers (network ?e'))"
    "length (ns_biases (networkState s1)) = length (layers (network ?e'))"
    using S1 S2 by (simp_all add: setData_def)
  then obtain e3 where r: "restoreState ?e' s1 = Inr e3"
    and e3: "currentStepIndex e3 = 0" "stepHistory e3 = [s1, s2]"
    using h2 by (simp add: restoreState_def Let_def)
  have u: "undo e2 = (e3, Inr True)"
    using i2 h2 r by (simp add: undo_def Let_def arrayAt_def)
  have g3: "getStepHistory e3 = [s1]" using e3 by (simp add: getStepHistory_def slice0_def)
  have u3: "undo e3 = (e3, Inr False)" using e3 by (simp add: undo_at_start)
  show ?thesis using g2 u g3 u3 by blast
qed

lemma mapE_total: "(\<And>x. x \<in> set xs \<Longrightarrow> \<exists>y. f x = Inr y) \<Longrightarrow> \<exists>ys. mapE f xs = Inr ys \<and> length ys = length xs"
proof (induction xs)
  case Nil
  then show ?case by simp
next
  case (Cons x xs)
  then obtain y where "f x = Inr y" by auto
  moreover from Cons obtain ys where "mapE f xs = Inr ys" "length ys = length xs" by auto
  ultimately show ?case by simp
qed

lemma forE_total:
  "(\<And>s k. k < n \<Longrightarrow> \<exists>s'. body s k = Inr s') \<Longrightarrow> \<exists>r. forE n init body = Inr r"
proof (induction n)
  case 0
  then show ?case by simp
next
  case (Suc n)
  then obtain r where "forE n init body = Inr r" by auto
  moreover from Suc.prems obtain s' where "body r n = Inr s'" by blast
  ultimately show ?case by (simp add: forE_Suc)
qed

lemma matmul_total:
  assumes "rows a \<le> length (data a)" "cols a \<le> length (data b)"
  shows "\<exists>r. matmul a b = Inr r"
proof -
  have entry: "\<exists>v. matmulEntry a b i j = Inr v" if "i < rows a" for i j
    unfolding matmulEntry_def
  proof (rule forE_total)
    fix s k assume "k < cols a"
    then show "\<exists>s'. bindE (at2 (data a) i k) (\<lambda>x. bindE (at2 (data b) k j) (\<lambda>y. Inr (jadd s (jmul x y)))) = Inr s'"
      using assms that by (simp add: at2_def arrayAt_def)
  qed
  have row: "\<exists>r. mapE (\<lambda>j. matmulEntry a b i j) [0..<cols b] = Inr r" if "i < rows a" for i
    using mapE_total [of "[0..<cols b]" "\<lambda>j. matmulEntry a b i j"] entry [OF that] by blast
  have "\<exists>d. mapE (\<lambda>i. mapE (\<lambda>j. matmulEntry a b i j) [0..<cols b]) [0..<rows a] = Inr d"
    using mapE_total [of "[0..<rows a]" "\<lambda>i. mapE (\<lambda>j. matmulEntry a b i j) [0..<cols b]"] row by auto
  then show ?thesis by (auto simp: matmul_def)
qed

lemma stepForwardLayer_first_total:
  assumes "layers (network e) \<noteq> []" "wellFormed (weights (layers (network e) ! 0))"
    "rows input \<le> length (data input)" "cols input \<le> cols (weights (layers (network e) ! 0))"
  shows "\<exists>e1 s1. stepForwardLayer (setData e input target) 0 = (e1, Inr s1)"
proof -
  let ?l = "layers (network e) ! 0"
  let ?T = "\<lparr>data = map (\<lambda>j. map (\<lambda>i. data (weights ?l) ! i ! j) [0..<rows (weights ?l)]) [0..<cols (weights ?l)],
         rows = cols (weights ?l), cols = rows (weights ?l)\<rparr>"
  have t: "transpose_t (weights ?l) = Inr ?T" using assms(2) by (rule transpose_wellFormed)
  have "cols input \<le> length (data ?T)" using assms(4) by simp
  from matmul_total [OF assms(3) this] obtain m where m: "matmul input ?T = Inr m" by blast
  have "\<exists>l' out. layer_forward ?l (Some input) = (l', Inr out)"
    using t m by (simp add: layer_forward_def Let_def)
  then obtain l' out where lf: "layer_forward ?l (Some input) = (l', Inr out)" by blast
  have 0: "0 < length (layers (network e))" using assms(1) by simp
  show ?thesis
    using 0 lf by (simp add: stepForwardLayer_def setData_def forwardLayer_def arrayAt_def Let_def)
qed

lemmas tensor_eval = transpose_t_def matmul_def matmulEntry_def forE_def at2_def arrayAt_def numAt_def
  broadcastAdd_def imap_def imapE_def mapTensor_def zipTensor_def colSum_def

lemma layer_forward_scalar:
  "layer_forward (newLayer (scalar w) Linear) (Some (scalar x)) = (layerF w x, Inr (scalar (x * w)))"
  by (simp add: layer_forward_def scalar_def newLayer_def layerF_def tensor_eval Let_def)

lemma demo1_state:
  "stepForwardLayer demo0 0 = (demo1, snd (stepForwardLayer demo0 0)) \<and>
   \<not> isl (snd (stepForwardLayer demo0 0)) \<and>
   layers (network demo1) = [layerF 2 3, newLayer (scalar (- 1)) Linear] \<and>
   lossFunction (network demo1) = MSE \<and>
   forwardActivations demo1 = [Some (scalar 6)] \<and>
   currentInput demo1 = Some (scalar 3) \<and> currentTarget demo1 = Some (scalar 7) \<and>
   currentLoss demo1 = None \<and> lossGradient demo1 = None \<and> currentStepIndex demo1 = 0"
  unfolding demo1_def
  by (simp add: demo0_def demoEngine_def newEngine_def setData_def stepForwardLayer_def forwardLayer_def
      arrayAt_def layer_forward_scalar Let_def setActivation_def pushSnapshot_def)

lemma demo2_state:
  "\<not> isl (snd (stepForwardLayer demo1 1)) \<and>
   layers (network demo2) = [layerF 2 3, layerF (- 1) 6] \<and>
   lossFunction (network demo2) = MSE \<and>
   forwardActivations demo2 = [Some (scalar 6), Some (scalar (- 6))] \<and>
   currentInput demo2 = Some (scalar 3) \<and> currentTarget demo2 = Some (scalar 7) \<and>
   currentLoss demo2 = None \<and> lossGradient demo2 = None \<and> currentStepIndex demo2 = 1"
  unfolding demo2_def using demo1_state
  by (simp add: stepForwardLayer_def forwardLayer_def activationAt_def
      arrayAt_def layer_forward_scalar Let_def setActivation_def pushSnapshot_def)


lemma mse_compute_scalar: "mse_compute (scalar p) (scalar t) = Inr (Num ((p - t) * (p - t)))"
  by (simp add: mse_compute_def scalar_def tensor_eval jsub_def Let_def)

lemma mse_gradient_scalar: "mse_gradient (scalar p) (scalar t) = Inr (scalar (2 * (p - t)))"
  by (simp add: mse_gradient_def scalar_def tensor_eval jsub_def Let_def)

lemma layer_backward_scalar:
  "layer_backward (layerF w x) (scalar g)
   = ((layerF w x)\<lparr>weightGrad := Some (scalar (g * x)), biasGrad := Some [Num g]\<rparr>,
      Inr (scalar (g * w)))"
  by (simp add: layer_backward_def layerF_def newLayer_def scalar_def tensor_eval Let_def)

lemma demo3_state:
  "\<not> isl (snd (stepComputeLoss demo2)) \<and>
   layers (network demo3) = [layerF 2 3, layerF (- 1) 6] \<and>
   lossFunction (network demo3) = MSE \<and>
   forwardActivations demo3 = [Some (scalar 6), Some (scalar (- 6))] \<and>
   currentTarget demo3 = Some (scalar 7) \<and>
   currentLoss demo3 = Some (Num 169) \<and> lossGradient demo3 = None \<and> currentStepIndex demo3 = 2"
  unfolding demo3_def using demo2_state
  by (simp add: stepComputeLoss_def lastActivation_def activationAt_def arrayAt_def
      mse_compute_scalar Let_def pushSnapshot_def)

lemma demo4_state:
  "\<not> isl (snd (stepBackwardLossGradient demo3)) \<and>
   layers (network demo4) = [layerF 2 3, layerF (- 1) 6] \<and>
   lossGradient demo4 = Some (scalar (- 26)) \<and> currentStepIndex demo4 = 3"
  unfolding demo4_def using demo3_state
  by (simp add: stepBackwardLossGradient_def lastActivation_def activationAt_def arrayAt_def
      mse_gradient_scalar Let_def pushSnapshot_def)

lemma demo5_state:
  "\<not> isl (snd (stepBackwardLayer demo4 1)) \<and>
   stepBackwardLayer demo4 1 = (demo5, snd (stepBackwardLayer demo4 1)) \<and>
   length (layers (network demo5)) = 2 \<and>
   lossGradient demo5 = Some (scalar (- 26)) \<and> currentStepIndex demo5 = 4"
  unfolding demo5_def using demo4_state
  by (simp add: stepBackwardLayer_def arrayAt_def layer_backward_scalar setLayer_def
      Let_def pushSnapshot_def)

lemma demo_fail:
  "stepBackwardLayer demo5 0 = (demo5, Inl (Error ''Backward pass must be done in reverse order''))"
  using demo5_state by (simp add: stepBackwardLayer_def)

lemma lossGradient_stepForwardLayer: "lossGradient (fst (stepForwardLayer e i)) = lossGradient e"
  by (simp add: stepForwardLayer_def Let_def pushSnapshot_def split: option.splits sum.splits prod.splits)

lemma lossGradient_forwardRemaining: "lossGradient (fst (forwardRemaining e ks c)) = lossGradient e"
  by (induction e ks c rule: forwardRemaining.induct)
     (simp_all add: Let_def split: sum.splits prod.splits)

lemma lossGradient_stepComputeLoss: "lossGradient (fst (stepComputeLoss e)) = lossGradient e"
proof (cases "currentInput e")
  case None
  then show ?thesis by (simp add: stepComputeLoss_def)
next
  case (Some inp)
  show ?thesis
  proof (cases "currentTarget e")
    case None
    then show ?thesis using Some by (simp add: stepComputeLoss_def)
  next
    case (Some target)
    obtain e1 r where p: "(if length (forwardActivations e) < length (layers (network e))
                 then forwardRemaining e [0..<length (layers (network e))] inp
                 else (e, Inr inp)) = (e1, r)"
      by (cases "if length (forwardActivations e) < length (layers (network e))
                 then forwardRemaining e [0..<length (layers (network e))] inp
                 else (e, Inr inp)") auto
    have "lossGradient (fst (if length (forwardActivations e) < length (layers (network e))
                 then forwardRemaining e [0..<length (layers (network e))] inp
                 else (e, Inr inp))) = lossGradient e"
      by (simp add: lossGradient_forwardRemaining)
    then have l1: "lossGradient e1 = lossGradient e" by (simp only: p fst_conv)
    show ?thesis
      using \<open>currentInput e = Some inp\<close> Some l1
      by (simp add: stepComputeLoss_def p Let_def pushSnapshot_def split: option.splits sum.splits)
  qed
qed

lemma lossGradient_restoreState: "restoreState e s = Inr e' \<Longrightarrow> lossGradient e' = lossGradient e"
  by (auto simp: restoreState_def Let_def split: if_splits)

lemma lossGradient_undo: "lossGradient (fst (undo e)) = lossGradient e"
  by (auto simp: undo_def Let_def dest: lossGradient_restoreState split: option.splits sum.splits)

lemma lossGradient_redo: "lossGradient (fst (redo e)) = lossGradient e"
  by (auto simp: redo_def Let_def dest: lossGradient_restoreState split: option.splits sum.splits)

lemma stepBackwardLayer_no_gradient:
  "lossGradient e = None \<Longrightarrow> stepBackwardLayer e i = (e, Inl (Error ''Must compute loss gradient first''))"
  by (simp add: stepBackwardLayer_def)

lemma lossGradient_applyOp: "lossGradient e = None \<Longrightarrow> lossGradient (applyOp e op) = None"
  by (cases op)
     (simp_all add: lossGradient_stepForwardLayer lossGradient_stepComputeLoss
        stepBackwardLayer_no_gradient lossGradient_undo lossGradient_redo)

lemma lossGradient_runOps: "lossGradient e = None \<Longrightarrow> lossGradient (runOps e ops) = None"
  unfolding runOps_def
  by (induction ops arbitrary: e) (simp_all add: lossGradient_applyOp)

text \<open>
  Claim C6. After \<open>setData\<close>, or on a newly constructed engine, and after any sequence
  of forward steps, loss steps, backward-layer steps, undos and redos, whether they
  return or throw (no step that computes the loss gradient), \<open>stepBackwardLayer\<close> on
  any layer, layer 0 included, leaves the engine as it is and raises the precondition
  error \<open>Must compute loss gradient first\<close>.
\<close>

theorem stepBackwardLayer_requires_loss_gradient:
  "stepBackwardLayer (runOps (setData e input target) ops) i
     = (runOps (setData e input target) ops, Inl (Error ''Must compute loss gradient first'')) \<and>
   stepBackwardLayer (runOps (newEngine ls lossType optimizerType) ops) i
     = (runOps (newEngine ls lossType optimizerType) ops,
        Inl (Error ''Must compute loss gradient first''))"
proof -
  have "lossGradient (setData e input target) = None" by (simp add: setData_def)
  then have 1: "lossGradient (runOps (setData e input target) ops) = None"
    by (rule lossGradient_runOps)
  have "lossGradient (newEngine ls lossType optimizerType) = None" by (simp add: newEngine_def)
  then have 2: "lossGradient (runOps (newEngine ls lossType optimizerType) ops) = None"
    by (rule lossGradient_runOps)
  show ?thesis using 1 2 by (simp add: stepBackwardLayer_no_gradient)
qed

lemma stepBackwardLayer_success:
  assumes "stepBackwardLayer e i = (e', Inr s)"
  shows "lossGradient e' = lossGradient e \<and> lossGradient e \<noteq> None \<and>
     length (layers (network e')) = length (layers (network e)) \<and>
     int i = int (length (layers (network e))) - 1 \<and>
     currentStepIndex e' = currentStepIndex e + 1 \<and>
     stepHistory e' = slice0 (stepHistory e) (currentStepIndex e + 1) @ [s] \<and>
     stepType s = StepBackward \<and> layerIndex s = Some i"
  using assms
  by (auto simp: stepBackwardLayer_def Let_def pushSnapshot_def setLayer_def
      split: option.splits sum.splits prod.splits if_splits)

lemma stepBackwardLayer_not_last:
  "lossGradient e \<noteq> None \<Longrightarrow> int i \<noteq> int (length (layers (network e))) - 1 \<Longrightarrow>
   stepBackwardLayer e i = (e, Inl (Error ''Backward pass must be done in reverse order''))"
  by (auto simp: stepBackwardLayer_def)

text \<open>
  Claim C2 fails on the code. Once the loss gradient is there, \<open>stepBackwardLayer(i)\<close>
  raises \<open>Backward pass must be done in reverse order\<close> for every \<open>i\<close> other than the
  last layer, also when it is called in reverse order: after a successful step on the
  last layer of a network with two or more layers, the step on the layer before it
  raises that error.
\<close>

theorem stepBackwardLayer_only_last_layer:
  "(lossGradient e \<noteq> None \<and> int i \<noteq> int (length (layers (network e))) - 1 \<longrightarrow>
      stepBackwardLayer e i = (e, Inl (Error ''Backward pass must be done in reverse order''))) \<and>
   (2 \<le> length (layers (network e)) \<and>
    stepBackwardLayer e (length (layers (network e)) - 1) = (e', Inr s) \<longrightarrow>
      stepBackwardLayer e' (length (layers (network e)) - 2)
        = (e', Inl (Error ''Backward pass must be done in reverse order'')))"
proof (intro conjI impI)
  assume "lossGradient e \<noteq> None \<and> int i \<noteq> int (length (layers (network e))) - 1"
  then show "stepBackwardLayer e i = (e, Inl (Error ''Backward pass must be done in reverse order''))"
    using stepBackwardLayer_not_last by blast
next
  assume a: "2 \<le> length (layers (network e)) \<and>
    stepBackwardLayer e (length (layers (network e)) - 1) = (e', Inr s)"
  then have S: "lossGradient e' \<noteq> None" "length (layers (network e')) = length (layers (network e))"
    using stepBackwardLayer_success [of e "length (layers (network e)) - 1" e' s] by simp_all
  have "int (length (layers (network e)) - 2) \<noteq> int (length (layers (network e'))) - 1"
    using a S by auto
  then show "stepBackwardLayer e' (length (layers (network e)) - 2)
        = (e', Inl (Error ''Backward pass must be done in reverse order''))"
    using S stepBackwardLayer_not_last by blast
qed

lemma backwardComplete_demo:
  "\<not> isl (snd (stepBackwardComplete demo4)) \<and>
   map layerIndex (projr (snd (stepBackwardComplete demo4))) = [Some 1, Some 0]"
  using demo4_state
  by (simp add: stepBackwardComplete_def arrayAt_def layer_backward_scalar setLayer_def
      Let_def pushSnapshot_def upt_rec numeral_2_eq_2)

theorem stepBackwardLayer_requires_loss_gradient_witness:
  "runOps (setData demoEngine (scalar 3) (scalar 7)) [ForwardLayer 0, ForwardLayer 1, ComputeLoss]
     = demo3 \<and>
   stepBackwardLayer demo3 0 = (demo3, Inl (Error ''Must compute loss gradient first''))"
proof -
  have r: "runOps (setData demoEngine (scalar 3) (scalar 7))
             [ForwardLayer 0, ForwardLayer 1, ComputeLoss] = demo3"
    by (simp add: runOps_def demo3_def demo2_def demo1_def demo0_def)
  from stepBackwardLayer_requires_loss_gradient
         [of demoEngine "scalar 3" "scalar 7" "[ForwardLayer 0, ForwardLayer 1, ComputeLoss]" 0,
          THEN conjunct1]
  show ?thesis unfolding r using r by simp
qed

theorem stepBackwardLayer_only_last_layer_witness:
  "lossGradient demo4 \<noteq> None \<and> 2 \<le> length (layers (network demo4)) \<and>
   \<not> isl (snd (stepBackwardLayer demo4 1)) \<and>
   stepBackwardLayer demo5 0 = (demo5, Inl (Error ''Backward pass must be done in reverse order''))"
proof -
  have l: "length (layers (network demo4)) = 2" using demo4_state by simp
  have g: "lossGradient demo4 \<noteq> None" using demo4_state by simp
  have ok: "\<not> isl (snd (stepBackwardLayer demo4 1))" using demo5_state by simp
  then obtain s where s: "snd (stepBackwardLayer demo4 1) = Inr s"
    by (cases "snd (stepBackwardLayer demo4 1)") auto
  have r: "stepBackwardLayer demo4 (length (layers (network demo4)) - 1) = (demo5, Inr s)"
    using demo5_state s l by simp
  from stepBackwardLayer_only_last_layer [of demo4 0 demo5 s, THEN conjunct2] r l
  have "stepBackwardLayer demo5 0
      = (demo5, Inl (Error ''Backward pass must be done in reverse order''))" by simp
  then show ?thesis using l g ok by simp
qed

text \<open>
  Claim C1, as amended. After \<open>setData\<close> the step history is empty. The first forward
  step returns whenever the network has a first layer with well-formed weights and the
  input has its rows and no more columns than the weights; when it returns, the history
  is the one new snapshot, the step index is 0, and \<open>undo\<close> returns false and changes
  nothing, as it does whenever the step index is at most 0. After a second forward step
  the history has both snapshots, \<open>undo\<close> returns true and takes the history back to the
  first snapshot, and a further \<open>undo\<close> returns false.
\<close>

theorem undo_needs_an_earlier_snapshot:
  "getStepHistory (setData e input target) = [] \<and>
   (layers (network e) \<noteq> [] \<and> wellFormed (weights (layers (network e) ! 0)) \<and>
    rows input \<le> length (data input) \<and> cols input \<le> cols (weights (layers (network e) ! 0)) \<longrightarrow>
      (\<exists>e1 s1. stepForwardLayer (setData e input target) 0 = (e1, Inr s1))) \<and>
   (\<forall>e1 s1. stepForwardLayer (setData e input target) 0 = (e1, Inr s1) \<longrightarrow>
      getStepHistory e1 = [s1] \<and> currentStepIndex e1 = 0 \<and> undo e1 = (e1, Inr False) \<and>
      (\<forall>e2 s2. stepForwardLayer e1 1 = (e2, Inr s2) \<longrightarrow>
         getStepHistory e2 = [s1, s2] \<and>
         (\<exists>e3. undo e2 = (e3, Inr True) \<and> getStepHistory e3 = [s1] \<and>
               undo e3 = (e3, Inr False)))) \<and>
   (\<forall>e'. currentStepIndex e' \<le> 0 \<longrightarrow> undo e' = (e', Inr False))"
proof -
  have A: "getStepHistory (setData e input target) = []" by (rule getStepHistory_setData)
  have B: "\<exists>e1 s1. stepForwardLayer (setData e input target) 0 = (e1, Inr s1)"
    if "layers (network e) \<noteq> [] \<and> wellFormed (weights (layers (network e) ! 0)) \<and>
    rows input \<le> length (data input) \<and> cols input \<le> cols (weights (layers (network e) ! 0))"
    using that stepForwardLayer_first_total [of e input target] by blast
  have C: "getStepHistory e1 = [s1] \<and> currentStepIndex e1 = 0 \<and> undo e1 = (e1, Inr False) \<and>
      (\<forall>e2 s2. stepForwardLayer e1 1 = (e2, Inr s2) \<longrightarrow>
         getStepHistory e2 = [s1, s2] \<and>
         (\<exists>e3. undo e2 = (e3, Inr True) \<and> getStepHistory e3 = [s1] \<and>
               undo e3 = (e3, Inr False)))"
    if h: "stepForwardLayer (setData e input target) 0 = (e1, Inr s1)" for e1 s1
    using first_step [OF h] second_step_undo [OF h] by blast
  have D: "\<forall>e'. currentStepIndex e' \<le> 0 \<longrightarrow> undo e' = (e', Inr False)"
    using undo_at_start by blast
  show ?thesis using A B C D by blast
qed

theorem undo_needs_an_earlier_snapshot_witness:
  "getStepHistory demo0 = [] \<and>
   \<not> isl (snd (stepForwardLayer demo0 0)) \<and>
   length (getStepHistory demo1) = 1 \<and>
   undo demo1 = (demo1, Inr False) \<and>
   \<not> isl (snd (stepForwardLayer demo1 1)) \<and>
   length (getStepHistory demo2) = 2 \<and>
   snd (undo demo2) = Inr True \<and>
   length (getStepHistory (fst (undo demo2))) = 1"
proof -
  note T = undo_needs_an_earlier_snapshot [of demoEngine "scalar 3" "scalar 7", folded demo0_def]
  have ok1: "\<not> isl (snd (stepForwardLayer demo0 0))" using demo1_state by simp
  then obtain s1 where s1: "snd (stepForwardLayer demo0 0) = Inr s1"
    by (cases "snd (stepForwardLayer demo0 0)") auto
  have r1: "stepForwardLayer demo0 0 = (demo1, Inr s1)" using demo1_state s1 by simp
  have ok2: "\<not> isl (snd (stepForwardLayer demo1 1))" using demo2_state by simp
  then obtain s2 where s2: "snd (stepForwardLayer demo1 1) = Inr s2"
    by (cases "snd (stepForwardLayer demo1 1)") auto
  have r2: "stepForwardLayer demo1 1 = (demo2, Inr s2)"
    using s2 by (simp add: demo2_def prod_eq_iff)
  from T r1 have 1: "getStepHistory demo0 = []" "getStepHistory demo1 = [s1]"
    "undo demo1 = (demo1, Inr False)" by blast+
  from T r1 r2 have 2: "getStepHistory demo2 = [s1, s2]"
    "\<exists>e3. undo demo2 = (e3, Inr True) \<and> getStepHistory e3 = [s1]" by blast+
  then obtain e3 where e3: "undo demo2 = (e3, Inr True)" "getStepHistory e3 = [s1]" by blast
  show ?thesis using 1 2(1) e3 ok1 ok2 by simp
qed

text \<open>
  The claim as stated fails on the example run: after \<open>setData\<close> and one forward step the
  step index is 0, so \<open>undo\<close> returns false and the history keeps its one snapshot.
\<close>

theorem undo_after_one_step_counterexample:
  "\<not> isl (snd (stepForwardLayer (setData demoEngine (scalar 3) (scalar 7)) 0)) \<and>
   length (getStepHistory (fst (stepForwardLayer (setData demoEngine (scalar 3) (scalar 7)) 0))) = 1 \<and>
   snd (undo (fst (stepForwardLayer (setData demoEngine (scalar 3) (scalar 7)) 0))) = Inr False \<and>
   snd (undo (fst (stepForwardLayer (setData demoEngine (scalar 3) (scalar 7)) 0))) \<noteq> Inr True \<and>
   getStepHistory (fst (undo (fst (stepForwardLayer (setData demoEngine (scalar 3) (scalar 7)) 0))))
     \<noteq> []"
proof -
  have ok1: "\<not> isl (snd (stepForwardLayer demo0 0))" using demo1_state by simp
  then obtain s1 where s1: "snd (stepForwardLayer demo0 0) = Inr s1"
    by (cases "snd (stepForwardLayer demo0 0)") auto
  have r1: "stepForwardLayer (setData demoEngine (scalar 3) (scalar 7)) 0 = (demo1, Inr s1)"
    using demo1_state s1 by (simp add: demo0_def)
  note F = first_step [OF r1]
  show ?thesis using F r1 by simp
qed


end
